theory Spec2Isabelle
  imports Complex_Main "HOL-Library.Word" "HOL-Library.AList"
begin

unbundle bit_operations_syntax

section \<open>Numbers and angles\<close>

text \<open>
  The simulation computes with JavaScript numbers. The coordinates, headings, hit points,
  the world time and the constants are modelled as the real numbers they approximate:
  \<open>+\<close>, \<open>-\<close>, \<open>*\<close>, \<open>/\<close> and the comparisons are the exact ones. Where the source
  divides by a constant (\<open>1 / TICK_RATE\<close>) the model agrees with the program for a non-zero
  divisor only, and the theorems that depend on such a quotient assume the divisor positive.

  The \<open>degrees\<close> argument of a turn comes from the player program, which the Tank API
  forwards unchecked, and \<open>busyUntil\<close> is computed from it: these two are modelled as
  \<open>jsnum\<close> below, a real number or one of the special values of a JavaScript number.

  \<open>js_rem\<close> is the \<open>%\<close> operator: the remainder has the sign of the dividend, the quotient
  is truncated towards zero.
\<close>

definition js_rem :: "real \<Rightarrow> real \<Rightarrow> real" where
  "js_rem a b = a - b * of_int (if a / b < 0 then \<lceil>a / b\<rceil> else \<lfloor>a / b\<rfloor>)"

text \<open>\<open>normalizeDeg\<close> of scan.js and of actions.js (the two copies are the same text).\<close>

definition normalizeDeg :: "real \<Rightarrow> real" where
  "normalizeDeg deg = js_rem (js_rem deg 360 + 360) 360"

text \<open>
  \<open>Math.atan2(y, x)\<close>, as the mathematical function it approximates: the angle in
  \<open>(-\<pi>, \<pi>]\<close> of the point \<open>(x, y)\<close>, and \<open>0\<close> at the origin.
\<close>

definition atan2 :: "real \<Rightarrow> real \<Rightarrow> real" where
  "atan2 dy dx =
     (if 0 < dx then arctan (dy / dx)
      else if dx < 0 then (if 0 \<le> dy then arctan (dy / dx) + pi else arctan (dy / dx) - pi)
      else if 0 < dy then pi / 2
      else if dy < 0 then - (pi / 2)
      else 0)"

definition DEG2RAD :: real where
  "DEG2RAD = pi / 180"

text \<open>
  A JavaScript number that may be special: a finite number, \<open>Infinity\<close>, \<open>-Infinity\<close> or
  \<open>NaN\<close>, with \<open>Math.abs\<close>, \<open>+\<close>, \<open>-\<close>, \<open>/\<close> and \<open>>=\<close> as IEEE 754 defines them on the
  special values (every comparison with \<open>NaN\<close> is false), and exact on the finite ones. A
  zero divisor is the positive zero.
\<close>

datatype jsnum = Fin real | PInf | NInf | NaN

fun js_abs :: "jsnum \<Rightarrow> jsnum" where
  "js_abs (Fin a) = Fin \<bar>a\<bar>"
| "js_abs PInf = PInf"
| "js_abs NInf = PInf"
| "js_abs NaN = NaN"

fun js_neg :: "jsnum \<Rightarrow> jsnum" where
  "js_neg (Fin a) = Fin (- a)"
| "js_neg PInf = NInf"
| "js_neg NInf = PInf"
| "js_neg NaN = NaN"

fun js_add :: "jsnum \<Rightarrow> jsnum \<Rightarrow> jsnum" where
  "js_add (Fin a) (Fin b) = Fin (a + b)"
| "js_add (Fin a) PInf = PInf"
| "js_add (Fin a) NInf = NInf"
| "js_add PInf (Fin b) = PInf"
| "js_add PInf PInf = PInf"
| "js_add PInf NInf = NaN"
| "js_add NInf (Fin b) = NInf"
| "js_add NInf PInf = NaN"
| "js_add NInf NInf = NInf"
| "js_add NaN b = NaN"
| "js_add a NaN = NaN"

definition js_sub :: "jsnum \<Rightarrow> jsnum \<Rightarrow> jsnum" where
  "js_sub a b = js_add a (js_neg b)"

fun js_div :: "jsnum \<Rightarrow> jsnum \<Rightarrow> jsnum" where
  "js_div (Fin a) (Fin b) =
     (if b \<noteq> 0 then Fin (a / b)
      else if a = 0 then NaN else if 0 < a then PInf else NInf)"
| "js_div (Fin a) PInf = Fin 0"
| "js_div (Fin a) NInf = Fin 0"
| "js_div PInf (Fin b) = (if 0 \<le> b then PInf else NInf)"
| "js_div NInf (Fin b) = (if 0 \<le> b then NInf else PInf)"
| "js_div PInf PInf = NaN"
| "js_div PInf NInf = NaN"
| "js_div NInf PInf = NaN"
| "js_div NInf NInf = NaN"
| "js_div NaN b = NaN"
| "js_div a NaN = NaN"

fun js_ge :: "jsnum \<Rightarrow> jsnum \<Rightarrow> bool" where
  "js_ge (Fin a) (Fin b) = (a \<ge> b)"
| "js_ge (Fin a) PInf = False"
| "js_ge (Fin a) NInf = True"
| "js_ge PInf (Fin b) = True"
| "js_ge PInf PInf = True"
| "js_ge PInf NInf = True"
| "js_ge NInf (Fin b) = False"
| "js_ge NInf PInf = False"
| "js_ge NInf NInf = True"
| "js_ge NaN b = False"
| "js_ge a NaN = False"

section \<open>Data model (world.js, constants.js)\<close>

datatype error = TypeError

text \<open>The \<open>activeAction\<close> descriptors: \<open>{type: "turnLeft"}\<close>, ..., \<open>{type: "scan", aDeg, bDeg}\<close>.\<close>

datatype action = TurnLeft | TurnRight | MoveForward | MoveBackward | Scan real real

fun action_type :: "action \<Rightarrow> string" where
  "action_type TurnLeft = ''turnLeft''"
| "action_type TurnRight = ''turnRight''"
| "action_type MoveForward = ''moveForward''"
| "action_type MoveBackward = ''moveBackward''"
| "action_type (Scan a b) = ''scan''"

record tank_stats =
  stats_hp :: real
  moveSpeed :: real
  turnRate :: real

text \<open>The constants the simulation reads. \<open>TANK_TYPES\<close> is a table keyed by the type name.\<close>

record constants =
  ARENA_WIDTH :: real
  ARENA_HEIGHT :: real
  TICK_RATE :: real
  ACTION_DURATION :: real
  MATCH_TIME_LIMIT :: real
  SCAN_RANGE :: real
  TANK_RADIUS :: real
  TANK_TYPES :: "string \<rightharpoonup> tank_stats"
  PROJECTILE_SPEED :: real
  PROJECTILE_RADIUS :: real
  PROJECTILE_DAMAGE :: real

text \<open>
  A projectile id \<open>proj_<n>\<close> is represented by the number \<open>n\<close>; \<open>null\<close> is \<open>None\<close>.
  The fields \<open>slot\<close>, \<open>x\<close>, \<open>y\<close> of a tank are \<open>tank_slot\<close>, \<open>tx\<close>, \<open>ty\<close>, the fields
  \<open>id\<close>, \<open>x\<close>, \<open>y\<close> of a projectile are \<open>pid\<close>, \<open>px\<close>, \<open>py\<close>, and the field \<open>t\<close> of the world is
  \<open>world_t\<close>.
\<close>

record tank =
  tank_slot :: string
  tx :: real
  ty :: real
  headingDeg :: real
  hp :: real
  tankType :: string
  busyUntil :: jsnum
  activeProjectileId :: "nat option"
  activeAction :: "action option"
  lastScanResult :: "bool option"

record projectile =
  pid :: nat
  owner :: string
  px :: real
  py :: real
  vx :: real
  vy :: real

text \<open>
  \<open>world.tanks\<close> is an object keyed by slot: an association list in the order of
  \<open>Object.keys\<close> (insertion order), with distinct keys. \<open>world.projectiles\<close> is a
  \<open>Map\<close> from id to projectile in which every entry is stored under its own \<open>id\<close>
  (\<open>shoot\<close> is the only writer): the list of its values in insertion order.
  \<open>rng\<close> is the state \<open>s\<close> captured by the closure that \<open>createPRNG\<close> returns, and
  \<open>idCounter\<close> is the module variable \<open>_idCounter\<close> of world.js, which \<open>createWorld\<close>
  resets and \<open>nextProjId\<close> increments.
\<close>

record world =
  world_t :: real
  seed :: int
  constants :: constants
  rng :: "32 word"
  tanks :: "(string \<times> tank) list"
  projectiles :: "projectile list"
  nextProjectileId :: nat
  idCounter :: nat

section \<open>Scan arc geometry (scan.js)\<close>

definition isInScanArc :: "tank \<Rightarrow> tank \<Rightarrow> real \<Rightarrow> real \<Rightarrow> real \<Rightarrow> bool" where
  "isInScanArc scanner target aDeg bDeg range' =
     (let dx = tx target - tx scanner;
          dy = ty target - ty scanner;
          distSq = dx * dx + dy * dy
      in if distSq > range' * range' then False
         else if distSq = 0 then True
         else
           let absBearingDeg = normalizeDeg (atan2 dy dx * (180 / pi));
               relBearing = normalizeDeg (absBearingDeg - headingDeg scanner);
               a = normalizeDeg aDeg;
               b = normalizeDeg bDeg
           in if a = b then True
              else
                let arcSpan = normalizeDeg (b - a);
                    offset = normalizeDeg (relBearing - a)
                in offset \<le> arcSpan)"


text \<open>The claim's own reading of normalisation, with the mathematical (floor) modulus.\<close>

definition spec_mod :: "real \<Rightarrow> real \<Rightarrow> real" where
  "spec_mod a b = a - b * of_int \<lfloor>a / b\<rfloor>"

definition spec_normalize :: "real \<Rightarrow> real" where
  "spec_normalize u = spec_mod (spec_mod u 360 + 360) 360"

section \<open>Timed actions (actions.js)\<close>

text \<open>
  A starter returns \<open>Inl TypeError\<close> where the source would throw on a property read of
  \<open>undefined\<close> (a slot with no tank, a tank type with no row in \<open>TANK_TYPES\<close>), and
  otherwise its boolean result with the world after the call. The tank objects are
  mutated in place: the model stores the changed tank back under its slot.

  The \<open>degrees\<close> argument of a turn is \<open>None\<close> for \<open>null\<close> and \<open>undefined\<close> (the test
  \<open>degrees != null\<close>) and otherwise the number that \<open>Math.abs\<close> converts the argument to:
  a number is itself, with \<open>NaN\<close> and the infinities among them, and a value that is not
  a number enters as the result of its conversion (\<open>NaN\<close> for \<open>"abc"\<close> or an object).
\<close>

definition setTank :: "string \<Rightarrow> tank \<Rightarrow> world \<Rightarrow> world" where
  "setTank s tank w = w\<lparr>tanks := AList.update s tank (tanks w)\<rparr>"

definition isIdle :: "tank \<Rightarrow> real \<Rightarrow> bool" where
  "isIdle tank now = js_ge (Fin now) (js_sub (busyUntil tank) (Fin (1 / 1000000000)))"

definition beginAction :: "tank \<Rightarrow> real \<Rightarrow> jsnum \<Rightarrow> action \<Rightarrow> tank" where
  "beginAction tank now duration action =
     tank\<lparr>busyUntil := js_add (Fin now) duration, activeAction := Some action\<rparr>"

definition turnLeft :: "world \<Rightarrow> string \<Rightarrow> jsnum option \<Rightarrow> error + (bool \<times> world)" where
  "turnLeft w s degrees =
     (case map_of (tanks w) s of
        None \<Rightarrow> Inl TypeError
      | Some tank \<Rightarrow>
          if \<not> isIdle tank (world_t w) then Inr (False, w)
          else
            (case degrees of
               Some d \<Rightarrow>
                 (case TANK_TYPES (constants w) (tankType tank) of
                    None \<Rightarrow> Inl TypeError
                  | Some stats \<Rightarrow>
                      Inr (True, setTank s
                        (beginAction tank (world_t w)
                           (js_div (js_abs d) (Fin (turnRate stats))) TurnLeft) w))
             | None \<Rightarrow>
                 Inr (True, setTank s
                   (beginAction tank (world_t w) (Fin (ACTION_DURATION (constants w))) TurnLeft) w)))"

definition turnRight :: "world \<Rightarrow> string \<Rightarrow> jsnum option \<Rightarrow> error + (bool \<times> world)" where
  "turnRight w s degrees =
     (case map_of (tanks w) s of
        None \<Rightarrow> Inl TypeError
      | Some tank \<Rightarrow>
          if \<not> isIdle tank (world_t w) then Inr (False, w)
          else
            (case degrees of
               Some d \<Rightarrow>
                 (case TANK_TYPES (constants w) (tankType tank) of
                    None \<Rightarrow> Inl TypeError
                  | Some stats \<Rightarrow>
                      Inr (True, setTank s
                        (beginAction tank (world_t w)
                           (js_div (js_abs d) (Fin (turnRate stats))) TurnRight) w))
             | None \<Rightarrow>
                 Inr (True, setTank s
                   (beginAction tank (world_t w) (Fin (ACTION_DURATION (constants w))) TurnRight) w)))"

definition moveForward :: "world \<Rightarrow> string \<Rightarrow> error + (bool \<times> world)" where
  "moveForward w s =
     (case map_of (tanks w) s of
        None \<Rightarrow> Inl TypeError
      | Some tank \<Rightarrow>
          if \<not> isIdle tank (world_t w) then Inr (False, w)
          else Inr (True, setTank s
                 (beginAction tank (world_t w) (Fin (ACTION_DURATION (constants w))) MoveForward) w))"

definition moveBackward :: "world \<Rightarrow> string \<Rightarrow> error + (bool \<times> world)" where
  "moveBackward w s =
     (case map_of (tanks w) s of
        None \<Rightarrow> Inl TypeError
      | Some tank \<Rightarrow>
          if \<not> isIdle tank (world_t w) then Inr (False, w)
          else Inr (True, setTank s
                 (beginAction tank (world_t w) (Fin (ACTION_DURATION (constants w))) MoveBackward) w))"

definition scan :: "world \<Rightarrow> string \<Rightarrow> real \<Rightarrow> real \<Rightarrow> error + (bool \<times> world)" where
  "scan w s aDeg bDeg =
     (case map_of (tanks w) s of
        None \<Rightarrow> Inl TypeError
      | Some tank \<Rightarrow>
          if \<not> isIdle tank (world_t w) then Inr (False, w)
          else Inr (True, setTank s
                 (beginAction tank (world_t w) (Fin (ACTION_DURATION (constants w)))
                    (Scan aDeg bDeg)) w))"

subsection \<open>The instant action\<close>

definition nextProjId :: "world \<Rightarrow> nat \<times> world" where
  "nextProjId w = (idCounter w, w\<lparr>idCounter := idCounter w + 1\<rparr>)"

text \<open>\<open>Map.prototype.set\<close> under the projectile's own id: in place for a key already there,
  at the end otherwise.\<close>

fun map_set :: "projectile \<Rightarrow> projectile list \<Rightarrow> projectile list" where
  "map_set proj [] = [proj]"
| "map_set proj (q # qs) = (if pid q = pid proj then proj # qs else q # map_set proj qs)"

definition shoot :: "world \<Rightarrow> string \<Rightarrow> error + (bool \<times> world)" where
  "shoot w s =
     (case map_of (tanks w) s of
        None \<Rightarrow> Inl TypeError
      | Some tank \<Rightarrow>
          if activeProjectileId tank \<noteq> None then Inr (False, w)
          else
            let c = constants w;
                rad = headingDeg tank * DEG2RAD;
                spawnOffset = TANK_RADIUS c + PROJECTILE_RADIUS c + 1;
                px0 = tx tank + cos rad * spawnOffset;
                py0 = ty tank + sin rad * spawnOffset;
                vx0 = cos rad * PROJECTILE_SPEED c;
                vy0 = sin rad * PROJECTILE_SPEED c;
                (i, w1) = nextProjId w;
                proj = \<lparr>pid = i, owner = s, px = px0, py = py0, vx = vx0, vy = vy0\<rparr>;
                w2 = w1\<lparr>projectiles := map_set proj (projectiles w1)\<rparr>
            in Inr (True, setTank s (tank\<lparr>activeProjectileId := Some i\<rparr>) w2))"

subsection \<open>Per-tick application\<close>

definition clampToArena :: "tank \<Rightarrow> constants \<Rightarrow> tank" where
  "clampToArena tank c =
     (let r = TANK_RADIUS c;
          t1 = (if tx tank < r then tank\<lparr>tx := r\<rparr> else tank);
          t2 = (if ty t1 < r then t1\<lparr>ty := r\<rparr> else t1);
          t3 = (if tx t2 > ARENA_WIDTH c - r then t2\<lparr>tx := ARENA_WIDTH c - r\<rparr> else t2);
          t4 = (if ty t3 > ARENA_HEIGHT c - r then t3\<lparr>ty := ARENA_HEIGHT c - r\<rparr> else t3)
      in t4)"

text \<open>The \<open>switch\<close> on the action type. \<open>stats\<close> is read only by the turn and move cases.\<close>

definition applyEffect :: "constants \<Rightarrow> real \<Rightarrow> tank \<Rightarrow> action \<Rightarrow> error + tank" where
  "applyEffect c dt tank action =
     (case action of
        TurnLeft \<Rightarrow>
          (case TANK_TYPES c (tankType tank) of
             None \<Rightarrow> Inl TypeError
           | Some stats \<Rightarrow>
               Inr (tank\<lparr>headingDeg := normalizeDeg (headingDeg tank - turnRate stats * dt)\<rparr>))
      | TurnRight \<Rightarrow>
          (case TANK_TYPES c (tankType tank) of
             None \<Rightarrow> Inl TypeError
           | Some stats \<Rightarrow>
               Inr (tank\<lparr>headingDeg := normalizeDeg (headingDeg tank + turnRate stats * dt)\<rparr>))
      | MoveForward \<Rightarrow>
          (case TANK_TYPES c (tankType tank) of
             None \<Rightarrow> Inl TypeError
           | Some stats \<Rightarrow>
               let rad = headingDeg tank * DEG2RAD
               in Inr (clampToArena
                    (tank\<lparr>tx := tx tank + cos rad * moveSpeed stats * dt,
                          ty := ty tank + sin rad * moveSpeed stats * dt\<rparr>) c))
      | MoveBackward \<Rightarrow>
          (case TANK_TYPES c (tankType tank) of
             None \<Rightarrow> Inl TypeError
           | Some stats \<Rightarrow>
               let rad = headingDeg tank * DEG2RAD
               in Inr (clampToArena
                    (tank\<lparr>tx := tx tank - cos rad * moveSpeed stats * dt,
                          ty := ty tank - sin rad * moveSpeed stats * dt\<rparr>) c))
      | Scan aDeg bDeg \<Rightarrow> Inr tank)"

text \<open>The loop over the opponents of a completing scan, with its \<open>continue\<close>s and \<open>break\<close>.\<close>

fun scanOpponents ::
  "constants \<Rightarrow> string \<Rightarrow> tank \<Rightarrow> real \<Rightarrow> real \<Rightarrow> (string \<times> tank) list \<Rightarrow> bool" where
  "scanOpponents c s tank aDeg bDeg [] = False"
| "scanOpponents c s tank aDeg bDeg ((oppSlot, opp) # rest) =
     (if oppSlot = s then scanOpponents c s tank aDeg bDeg rest
      else if hp opp \<le> 0 then scanOpponents c s tank aDeg bDeg rest
      else if isInScanArc tank opp aDeg bDeg (SCAN_RANGE c) then True
      else scanOpponents c s tank aDeg bDeg rest)"

text \<open>A completion descriptor \<open>{slot, actionType, scanResult?}\<close>.\<close>

type_synonym completion = "string \<times> string \<times> bool option"

definition EPSILON :: real where
  "EPSILON = 1 / 1000000000"

text \<open>
  One iteration of the loop of \<open>applyActiveActions\<close>, for the tank under slot \<open>s\<close>;
  \<open>entries\<close> is \<open>Object.entries(world.tanks)\<close> at that moment.
\<close>

definition applyTank ::
  "constants \<Rightarrow> real \<Rightarrow> real \<Rightarrow> (string \<times> tank) list \<Rightarrow> string \<Rightarrow> tank
     \<Rightarrow> error + (tank \<times> completion list)" where
  "applyTank c now dt entries s tank =
     (if hp tank \<le> 0 then Inr (tank, [])
      else
        case activeAction tank of
          None \<Rightarrow> Inr (tank, [])
        | Some action \<Rightarrow>
            (case applyEffect c dt tank action of
               Inl e \<Rightarrow> Inl e
             | Inr tank1 \<Rightarrow>
                 if js_ge (Fin (now + dt)) (js_sub (busyUntil tank1) (Fin EPSILON)) then
                   let tank2 =
                         (case action of
                            Scan aDeg bDeg \<Rightarrow>
                              tank1\<lparr>lastScanResult :=
                                Some (scanOpponents c s tank1 aDeg bDeg entries)\<rparr>
                          | _ \<Rightarrow> tank1);
                       desc =
                         (s, action_type action,
                          (case action of
                             Scan aDeg bDeg \<Rightarrow>
                               Some (case lastScanResult tank2 of Some r \<Rightarrow> r | None \<Rightarrow> False)
                           | _ \<Rightarrow> None))
                   in Inr (tank2\<lparr>activeAction := None\<rparr>, [desc])
                 else Inr (tank1, [])))"

text \<open>
  The loop over \<open>Object.keys(world.tanks)\<close>: \<open>done\<close> holds the entries already visited
  (as they are now), the second list the entries still to visit.
\<close>

fun applyLoop ::
  "constants \<Rightarrow> real \<Rightarrow> real \<Rightarrow> (string \<times> tank) list \<Rightarrow> (string \<times> tank) list
     \<Rightarrow> error + ((string \<times> tank) list \<times> completion list)" where
  "applyLoop c now dt done [] = Inr (done, [])"
| "applyLoop c now dt done ((s, tank) # rest) =
     (case applyTank c now dt (done @ (s, tank) # rest) s tank of
        Inl e \<Rightarrow> Inl e
      | Inr (tank', ds) \<Rightarrow>
          (case applyLoop c now dt (done @ [(s, tank')]) rest of
             Inl e \<Rightarrow> Inl e
           | Inr (tks, ds') \<Rightarrow> Inr (tks, ds @ ds')))"

definition applyActiveActions :: "world \<Rightarrow> real \<Rightarrow> error + (world \<times> completion list)" where
  "applyActiveActions w dt =
     (case applyLoop (constants w) (world_t w) dt [] (tanks w) of
        Inl e \<Rightarrow> Inl e
      | Inr (tks, completed) \<Rightarrow> Inr (w\<lparr>tanks := tks\<rparr>, completed))"

section \<open>One tick (step.js)\<close>

datatype event =
    ActionComplete string string "bool option"
  | Despawn nat string string
  | Hit nat string string real
  | MatchEnd "string option" string

definition clearProjectileFromOwner ::
  "(string \<times> tank) list \<Rightarrow> projectile \<Rightarrow> (string \<times> tank) list" where
  "clearProjectileFromOwner tks proj =
     (case map_of tks (owner proj) of
        None \<Rightarrow> tks
      | Some ownerTank \<Rightarrow>
          if activeProjectileId ownerTank = Some (pid proj)
          then AList.update (owner proj) (ownerTank\<lparr>activeProjectileId := None\<rparr>) tks
          else tks)"

definition moveProjectiles :: "real \<Rightarrow> projectile list \<Rightarrow> projectile list" where
  "moveProjectiles dt ps =
     map (\<lambda>proj. proj\<lparr>px := px proj + vx proj * dt, py := py proj + vy proj * dt\<rparr>) ps"

definition outOfBounds :: "constants \<Rightarrow> projectile \<Rightarrow> bool" where
  "outOfBounds c proj =
     (px proj < - PROJECTILE_RADIUS c \<or>
      px proj > ARENA_WIDTH c + PROJECTILE_RADIUS c \<or>
      py proj < - PROJECTILE_RADIUS c \<or>
      py proj > ARENA_HEIGHT c + PROJECTILE_RADIUS c)"

text \<open>
  The despawn loop. Deleting the entry being visited from a \<open>Map\<close> does not disturb the
  iteration, so the loop visits every projectile once, in order. The result is the tanks,
  the projectiles that remain and the events pushed.
\<close>

fun despawnLoop ::
  "constants \<Rightarrow> projectile list \<Rightarrow> (string \<times> tank) list
     \<Rightarrow> (string \<times> tank) list \<times> projectile list \<times> event list" where
  "despawnLoop c [] tks = (tks, [], [])"
| "despawnLoop c (proj # rest) tks =
     (if outOfBounds c proj then
        (case despawnLoop c rest (clearProjectileFromOwner tks proj) of
           (tks', ps, evs) \<Rightarrow> (tks', ps, Despawn (pid proj) (owner proj) ''oob'' # evs))
      else
        (case despawnLoop c rest tks of
           (tks', ps, evs) \<Rightarrow> (tks', proj # ps, evs)))"

text \<open>
  The inner loop of hit detection for one projectile: the first tank that is not the owner,
  is alive and is within the hit range takes the damage; the result is the tanks after the
  hit and the slot that was hit, or \<open>None\<close> when no tank is hit.
\<close>

fun hitTanks ::
  "constants \<Rightarrow> projectile \<Rightarrow> (string \<times> tank) list \<Rightarrow> ((string \<times> tank) list \<times> string) option" where
  "hitTanks c proj [] = None"
| "hitTanks c proj ((targetSlot, target) # rest) =
     (let skip = map_option (\<lambda>(r, hitSlot). ((targetSlot, target) # r, hitSlot)) (hitTanks c proj rest);
          hitRange = PROJECTILE_RADIUS c + TANK_RADIUS c;
          hitRangeSq = hitRange * hitRange;
          dx = px proj - tx target;
          dy = py proj - ty target
      in if targetSlot = owner proj then skip
         else if hp target \<le> 0 then skip
         else if dx * dx + dy * dy \<le> hitRangeSq then
           let hp1 = hp target - PROJECTILE_DAMAGE c;
               hp2 = (if hp1 < 0 then 0 else hp1)
           in Some ((targetSlot, target\<lparr>hp := hp2\<rparr>) # rest, targetSlot)
         else skip)"

fun hitLoop ::
  "constants \<Rightarrow> projectile list \<Rightarrow> (string \<times> tank) list
     \<Rightarrow> (string \<times> tank) list \<times> projectile list \<times> event list" where
  "hitLoop c [] tks = (tks, [], [])"
| "hitLoop c (proj # rest) tks =
     (case hitTanks c proj tks of
        None \<Rightarrow>
          (case hitLoop c rest tks of
             (tks', ps, evs) \<Rightarrow> (tks', proj # ps, evs))
      | Some (tks1, targetSlot) \<Rightarrow>
          (case hitLoop c rest (clearProjectileFromOwner tks1 proj) of
             (tks', ps, evs) \<Rightarrow>
               (tks', ps, Hit (pid proj) (owner proj) targetSlot (PROJECTILE_DAMAGE c) # evs)))"

definition tankHp :: "(string \<times> tank) list \<Rightarrow> string \<Rightarrow> real" where
  "tankHp tks s = (case map_of tks s of Some tank \<Rightarrow> hp tank | None \<Rightarrow> 0)"

text \<open>Match end. \<open>Array.prototype.sort\<close> is stable, as \<open>sort_key\<close> is; the comparator
  orders by descending hp.\<close>

definition matchEnd :: "constants \<Rightarrow> real \<Rightarrow> (string \<times> tank) list \<Rightarrow> event list" where
  "matchEnd c now tks =
     (let alive = map fst (filter (\<lambda>(s, tank). hp tank > 0) tks)
      in if length alive \<le> 1 then
           (if length alive = 1 then [MatchEnd (Some (alive ! 0)) ''hp'']
            else [MatchEnd None ''double_ko''])
         else if now \<ge> MATCH_TIME_LIMIT c then
           (let sorted = sort_key (\<lambda>s. - tankHp tks s) alive
            in if tankHp tks (sorted ! 0) > tankHp tks (sorted ! 1)
               then [MatchEnd (Some (sorted ! 0)) ''timeout'']
               else [MatchEnd None ''timeout''])
         else [])"

definition step :: "world \<Rightarrow> error + (world \<times> event list)" where
  "step w =
     (let c = constants w;
          dt = 1 / TICK_RATE c
      in case applyActiveActions w dt of
           Inl e \<Rightarrow> Inl e
         | Inr (w0, completedActions) \<Rightarrow>
             let events0 = map (\<lambda>(s, actionType, scanResult).
                                  ActionComplete s actionType scanResult) completedActions;
                 ps1 = moveProjectiles dt (projectiles w0)
             in case despawnLoop c ps1 (tanks w0) of
                  (tks2, ps2, events2) \<Rightarrow>
                    (case hitLoop c ps2 tks2 of
                       (tks3, ps3, events3) \<Rightarrow>
                         let w4 = w0\<lparr>tanks := tks3, projectiles := ps3, world_t := world_t w0 + dt\<rparr>
                         in Inr (w4, events0 @ events2 @ events3 @ matchEnd c (world_t w4) tks3)))"

text \<open>The driver calls \<open>step\<close> tick after tick; \<open>run_ticks k\<close> is \<open>k\<close> calls in a row, with the
  events of each tick.\<close>

fun run_ticks :: "nat \<Rightarrow> world \<Rightarrow> error + (world \<times> event list list)" where
  "run_ticks 0 w = Inr (w, [])"
| "run_ticks (Suc k) w =
     (case step w of
        Inl e \<Rightarrow> Inl e
      | Inr (w1, evs) \<Rightarrow>
          (case run_ticks k w1 of
             Inl e \<Rightarrow> Inl e
           | Inr (w2, evss) \<Rightarrow> Inr (w2, evs # evss)))"

section \<open>World construction (prng.js, world.js, constants.js)\<close>

definition imul :: "32 word \<Rightarrow> 32 word \<Rightarrow> 32 word" where
  "imul a b = a * b"

definition createPRNG :: "int \<Rightarrow> 32 word" where
  "createPRNG seed0 = word_of_int seed0"

text \<open>One call of the generator: the value returned and the new state.\<close>

definition random :: "32 word \<Rightarrow> real \<times> 32 word" where
  "random s0 =
     (let s = s0 + 0x6d2b79f5;
          t1 = imul (s XOR drop_bit 15 s) (1 OR s);
          t2 = (t1 + imul (t1 XOR drop_bit 7 t1) (61 OR t1)) XOR t1
      in (real (unat (t2 XOR drop_bit 14 t2)) / 4294967296, s))"

definition createTank ::
  "string \<Rightarrow> real \<Rightarrow> real \<Rightarrow> real \<Rightarrow> string \<Rightarrow> constants \<Rightarrow> error + tank" where
  "createTank s x0 y0 heading0 type0 c =
     (case TANK_TYPES c type0 of
        None \<Rightarrow> Inl TypeError
      | Some stats \<Rightarrow>
          Inr \<lparr>tank_slot = s, tx = x0, ty = y0, headingDeg = heading0, hp = stats_hp stats,
               tankType = type0, busyUntil = Fin 0, activeProjectileId = None,
               activeAction = None, lastScanResult = None\<rparr>)"

text \<open>The loop of \<open>createWorld\<close> over the players, from index \<open>i\<close> on; \<open>n\<close> is their number.\<close>

fun spawnLoop ::
  "constants \<Rightarrow> real \<Rightarrow> real \<Rightarrow> real \<Rightarrow> real \<Rightarrow> nat \<Rightarrow> nat \<Rightarrow> (string \<times> string) list
     \<Rightarrow> (string \<times> tank) list \<Rightarrow> error + (string \<times> tank) list" where
  "spawnLoop c cx cy radius angleOffset n i [] tks = Inr tks"
| "spawnLoop c cx cy radius angleOffset n i ((s, type0) # rest) tks =
     (let angle = angleOffset + (2 * pi * real i) / real n;
          x0 = cx + cos angle * radius;
          y0 = cy + sin angle * radius;
          heading0 = js_rem ((angle * 180 / pi) + 180) 360
      in case createTank s x0 y0 heading0 type0 c of
           Inl e \<Rightarrow> Inl e
         | Inr tank \<Rightarrow>
             spawnLoop c cx cy radius angleOffset n (i + 1) rest (AList.update s tank tks))"

text \<open>\<open>players\<close> is the list of \<open>(slot, tankType)\<close>; the empty list stands for an absent one too.\<close>

definition createWorld :: "int \<Rightarrow> constants \<Rightarrow> (string \<times> string) list \<Rightarrow> error + world" where
  "createWorld seed0 c players0 =
     (let s0 = createPRNG seed0;
          players = (if players0 = [] then [(''p1'', ''light''), (''p2'', ''light'')] else players0);
          n = length players;
          cx = ARENA_WIDTH c / 2;
          cy = ARENA_HEIGHT c / 2;
          radius = min cx cy * (55 / 100);
          (r, s1) = random s0;
          angleOffset = r * pi * 2
      in case spawnLoop c cx cy radius angleOffset n 0 players [] of
           Inl e \<Rightarrow> Inl e
         | Inr tks \<Rightarrow>
             Inr \<lparr>world_t = 0, seed = seed0, constants = c, rng = s1, tanks = tks,
                  projectiles = [], nextProjectileId = 0, idCounter = 0\<rparr>)"

definition CONSTANTS :: constants where
  "CONSTANTS =
     \<lparr>ARENA_WIDTH = 1200, ARENA_HEIGHT = 800, TICK_RATE = 60, ACTION_DURATION = 1,
      MATCH_TIME_LIMIT = 180, SCAN_RANGE = 700, TANK_RADIUS = 18,
      TANK_TYPES =
        [''light'' \<mapsto> \<lparr>stats_hp = 60, moveSpeed = 160, turnRate = 120\<rparr>,
         ''heavy'' \<mapsto> \<lparr>stats_hp = 120, moveSpeed = 60, turnRate = 90\<rparr>],
      PROJECTILE_SPEED = 420, PROJECTILE_RADIUS = 4, PROJECTILE_DAMAGE = 20\<rparr>"

section \<open>Tank API and player runtime (tankApi.js, localTankApi.js, runPlayer.js)\<close>

text \<open>
  The watchdog of \<open>startPlayerLoop\<close> is observed through the number of times its
  \<open>reset()\<close> has re-armed the timer. An API object is observed through whether a completion
  callback is pending and through the hook that the runtime assigns to
  \<open>tankApi._onActionStart\<close>. A timed operation returns whether the starter accepted (the
  awaitable is then the pending one), the world, the API object and the watchdog after
  the call.
\<close>

record watchdog =
  resets :: nat

definition watchdog_reset :: "watchdog \<Rightarrow> watchdog" where
  "watchdog_reset wd = wd\<lparr>resets := resets wd + 1\<rparr>"

record tank_api =
  pendingResolve :: bool
  onActionStart :: "(watchdog \<Rightarrow> watchdog) option"

datatype timed_op =
    OpTurnLeft "jsnum option"
  | OpTurnRight "jsnum option"
  | OpMoveForward
  | OpMoveBackward
  | OpScan real real

text \<open>\<open>actions[name](world, slot, ...args)\<close>\<close>

fun start_action :: "timed_op \<Rightarrow> world \<Rightarrow> string \<Rightarrow> error + (bool \<times> world)" where
  "start_action (OpTurnLeft degrees) w s = turnLeft w s degrees"
| "start_action (OpTurnRight degrees) w s = turnRight w s degrees"
| "start_action OpMoveForward w s = moveForward w s"
| "start_action OpMoveBackward w s = moveBackward w s"
| "start_action (OpScan aDeg bDeg) w s = scan w s aDeg bDeg"

text \<open>\<open>timedAction\<close> of server/src/runtime/tankApi.js.\<close>

definition server_timedAction ::
  "timed_op \<Rightarrow> world \<Rightarrow> string \<Rightarrow> tank_api \<Rightarrow> watchdog
     \<Rightarrow> error + (bool \<times> world \<times> tank_api \<times> watchdog)" where
  "server_timedAction op w s api wd =
     (case start_action op w s of
        Inl e \<Rightarrow> Inl e
      | Inr (accepted, w') \<Rightarrow>
          if \<not> accepted then Inr (False, w', api, wd)
          else Inr (True, w', api\<lparr>pendingResolve := True\<rparr>, wd))"

text \<open>\<open>timedAction\<close> of client/src/local/localTankApi.js.\<close>

definition local_timedAction ::
  "timed_op \<Rightarrow> world \<Rightarrow> string \<Rightarrow> tank_api \<Rightarrow> watchdog
     \<Rightarrow> error + (bool \<times> world \<times> tank_api \<times> watchdog)" where
  "local_timedAction op w s api wd =
     (case start_action op w s of
        Inl e \<Rightarrow> Inl e
      | Inr (accepted, w') \<Rightarrow>
          if \<not> accepted then Inr (False, w', api, wd)
          else
            let wd' = (case onActionStart api of Some hook \<Rightarrow> hook wd | None \<Rightarrow> wd)
            in Inr (True, w', api\<lparr>pendingResolve := True\<rparr>, wd'))"

text \<open>The registration in \<open>run()\<close>: \<open>tankApi._onActionStart = () => watchdog.reset()\<close>.\<close>

definition register_hook :: "tank_api \<Rightarrow> tank_api" where
  "register_hook api = api\<lparr>onActionStart := Some watchdog_reset\<rparr>"

section \<open>Notions used in the statements and proofs\<close>

text \<open>The duration and the descriptor that the claims give for each timed operation.\<close>

definition claimed_duration :: "constants \<Rightarrow> tank_stats \<Rightarrow> timed_op \<Rightarrow> jsnum" where
  "claimed_duration c stats op =
     (case op of
        OpTurnLeft (Some d) \<Rightarrow> js_div (js_abs d) (Fin (turnRate stats))
      | OpTurnRight (Some d) \<Rightarrow> js_div (js_abs d) (Fin (turnRate stats))
      | _ \<Rightarrow> Fin (ACTION_DURATION c))"

fun claimed_action :: "timed_op \<Rightarrow> action" where
  "claimed_action (OpTurnLeft degrees) = TurnLeft"
| "claimed_action (OpTurnRight degrees) = TurnRight"
| "claimed_action OpMoveForward = MoveForward"
| "claimed_action OpMoveBackward = MoveBackward"
| "claimed_action (OpScan aDeg bDeg) = Scan aDeg bDeg"

text \<open>The event that \<open>step\<close> pushes for a completion descriptor.\<close>

definition completionEvent :: "completion \<Rightarrow> event" where
  "completionEvent d =
     (case d of (s, actionType, scanResult) \<Rightarrow> ActionComplete s actionType scanResult)"

text \<open>Every projectile of the world has an id that \<open>nextProjId\<close> has already handed out.\<close>

definition ids_below :: "world \<Rightarrow> bool" where
  "ids_below w = list_all (\<lambda>q. pid q < idCounter w) (projectiles w)"

text \<open>
  Two relations between an entry of \<open>world.tanks\<close> before and after a part of a tick:
  \<open>tick_rel\<close> is one iteration of the loop of \<open>applyActiveActions\<close>; \<open>frame_rel\<close> is what
  despawn and hit detection may do to a tank (lower the hit points of a live tank, clear
  its \<open>activeProjectileId\<close>).
\<close>

definition tick_rel ::
  "constants \<Rightarrow> real \<Rightarrow> real \<Rightarrow> string \<times> tank \<Rightarrow> string \<times> tank \<Rightarrow> bool" where
  "tick_rel c now dt e e' =
     (fst e' = fst e
      \<and> (\<exists>entries ds. applyTank c now dt entries (fst e) (snd e) = Inr (snd e', ds)))"

definition frame_rel :: "string \<times> tank \<Rightarrow> string \<times> tank \<Rightarrow> bool" where
  "frame_rel e e' =
     (fst e' = fst e
      \<and> tank_slot (snd e') = tank_slot (snd e) \<and> tx (snd e') = tx (snd e)
      \<and> ty (snd e') = ty (snd e) \<and> headingDeg (snd e') = headingDeg (snd e)
      \<and> tankType (snd e') = tankType (snd e) \<and> busyUntil (snd e') = busyUntil (snd e)
      \<and> activeAction (snd e') = activeAction (snd e)
      \<and> lastScanResult (snd e') = lastScanResult (snd e)
      \<and> (hp (snd e) \<le> 0 \<longrightarrow> hp (snd e') = hp (snd e))
      \<and> (hp (snd e') \<le> 0 \<or> 0 < hp (snd e))
      \<and> (activeProjectileId (snd e') = None
           \<or> activeProjectileId (snd e') = activeProjectileId (snd e)))"

text \<open>
  Between two ticks the player programs start actions and shoot. A command is one tick or
  one such call, \<open>run\<close> performs a sequence of them, and the worlds a match can be in are
  the results of \<open>run\<close> on a world of \<open>createWorld\<close>.
\<close>

datatype command = Tick | Start timed_op string | Shoot string

fun exec :: "command \<Rightarrow> world \<Rightarrow> error + world" where
  "exec Tick w = (case step w of Inl e \<Rightarrow> Inl e | Inr (w', evs) \<Rightarrow> Inr w')"
| "exec (Start op s) w =
     (case start_action op w s of Inl e \<Rightarrow> Inl e | Inr (accepted, w') \<Rightarrow> Inr w')"
| "exec (Shoot s) w = (case shoot w s of Inl e \<Rightarrow> Inl e | Inr (fired, w') \<Rightarrow> Inr w')"

fun run :: "command list \<Rightarrow> world \<Rightarrow> error + world" where
  "run [] w = Inr w"
| "run (cmd # cmds) w = (case exec cmd w of Inl e \<Rightarrow> Inl e | Inr w' \<Rightarrow> run cmds w')"




text \<open>Arena containment of a tank, and of every alive tank of a world.\<close>

definition in_arena :: "constants \<Rightarrow> tank \<Rightarrow> bool" where
  "in_arena c tank =
     (TANK_RADIUS c \<le> tx tank \<and> tx tank \<le> ARENA_WIDTH c - TANK_RADIUS c
      \<and> TANK_RADIUS c \<le> ty tank \<and> ty tank \<le> ARENA_HEIGHT c - TANK_RADIUS c)"

definition arena_containment :: "world \<Rightarrow> bool" where
  "arena_containment w =
     list_all (\<lambda>(s, tank). hp tank > 0 \<longrightarrow> in_arena (constants w) tank) (tanks w)"

text \<open>
  Observing a busy window. \<open>completes_in s evs\<close>: the events of a tick hold a completion for
  slot \<open>s\<close>. \<open>completion_tick fuel w s\<close>: the number of the first tick from \<open>w\<close> on, counted
  from \<open>1\<close> and among the next \<open>fuel\<close> ticks, whose events hold one. \<open>alive_for k w s\<close>: the
  tank under \<open>s\<close> is alive at the start of each of the next \<open>k\<close> ticks. \<open>first_later_tick dt D m\<close>: \<open>m\<close> is the first tick after the acceptance with
  \<open>m * dt \<ge> D - \<epsilon>\<close>. \<open>turn_sign\<close>: the direction of a turn action.
\<close>

definition completes_in :: "string \<Rightarrow> event list \<Rightarrow> bool" where
  "completes_in s evs =
     list_ex (\<lambda>e. case e of ActionComplete s' actionType r \<Rightarrow> s' = s | _ \<Rightarrow> False) evs"

fun completion_tick :: "nat \<Rightarrow> world \<Rightarrow> string \<Rightarrow> nat option" where
  "completion_tick 0 w s = None"
| "completion_tick (Suc fuel) w s =
     (case step w of
        Inl e \<Rightarrow> None
      | Inr (w1, evs) \<Rightarrow>
          if completes_in s evs then Some 1
          else map_option Suc (completion_tick fuel w1 s))"

fun alive_for :: "nat \<Rightarrow> world \<Rightarrow> string \<Rightarrow> bool" where
  "alive_for 0 w s = True"
| "alive_for (Suc k) w s =
     ((case map_of (tanks w) s of Some tank \<Rightarrow> hp tank > 0 | None \<Rightarrow> False)
      \<and> (case step w of Inr (w1, evs) \<Rightarrow> alive_for k w1 s | Inl e \<Rightarrow> True))"

definition first_later_tick :: "real \<Rightarrow> real \<Rightarrow> nat \<Rightarrow> bool" where
  "first_later_tick dt D m =
     (1 \<le> m \<and> real m * dt \<ge> D - EPSILON
      \<and> (\<forall>j. 1 \<le> j \<and> j < m \<longrightarrow> real j * dt < D - EPSILON))"

fun turn_sign :: "action \<Rightarrow> real" where
  "turn_sign TurnLeft = - 1"
| "turn_sign TurnRight = 1"
| "turn_sign a = 0"

text \<open>Every tank of the world has a type with a row in \<open>TANK_TYPES\<close>.\<close>

definition types_ok :: "world \<Rightarrow> bool" where
  "types_ok w =
     list_all (\<lambda>(s, tank). TANK_TYPES (constants w) (tankType tank) \<noteq> None) (tanks w)"


definition arena_fits :: "constants \<Rightarrow> bool" where
  "arena_fits c =
     (0 \<le> ARENA_WIDTH c \<and> 0 \<le> ARENA_HEIGHT c
      \<and> TANK_RADIUS c + min (ARENA_WIDTH c / 2) (ARENA_HEIGHT c / 2) * (55 / 100)
            \<le> ARENA_WIDTH c / 2
      \<and> TANK_RADIUS c + min (ARENA_WIDTH c / 2) (ARENA_HEIGHT c / 2) * (55 / 100)
            \<le> ARENA_HEIGHT c / 2)"

text \<open>A tank as \<open>createWorld\<close> makes it: idle, on the spawn ring.\<close>

definition fresh_tank :: "constants \<Rightarrow> tank \<Rightarrow> bool" where
  "fresh_tank c tank =
     (busyUntil tank = Fin 0 \<and> activeAction tank = None \<and> activeProjectileId tank = None
      \<and> (\<exists>a. tx tank = ARENA_WIDTH c / 2
                  + cos a * (min (ARENA_WIDTH c / 2) (ARENA_HEIGHT c / 2) * (55 / 100))
             \<and> ty tank = ARENA_HEIGHT c / 2
                  + sin a * (min (ARENA_WIDTH c / 2) (ARENA_HEIGHT c / 2) * (55 / 100))))"

definition all_in_arena :: "world \<Rightarrow> bool" where
  "all_in_arena w = list_all (\<lambda>(s, tank). in_arena (constants w) tank) (tanks w)"

section \<open>Scenario worlds\<close>

text \<open>The tanks and worlds of the concrete scenarios: a tank of the given slot, type,
  position and heading as \<open>createTank\<close> makes it, in a world at time \<open>0\<close>.\<close>

definition scenario_tank :: "string \<Rightarrow> string \<Rightarrow> real \<Rightarrow> real \<Rightarrow> real \<Rightarrow> tank" where
  "scenario_tank s type0 x0 y0 heading0 =
     \<lparr>tank_slot = s, tx = x0, ty = y0, headingDeg = heading0,
      hp = (if type0 = ''heavy'' then 120 else 60),
      tankType = type0, busyUntil = Fin 0, activeProjectileId = None,
      activeAction = None, lastScanResult = None\<rparr>"

definition scenario_world :: "(string \<times> tank) list \<Rightarrow> world" where
  "scenario_world tks =
     \<lparr>world_t = 0, seed = 0, constants = CONSTANTS, rng = 0, tanks = tks,
      projectiles = [], nextProjectileId = 0, idCounter = 0\<rparr>"

text \<open>A world in which the projectile of \<open>p1\<close> is about to cross the right edge.\<close>

definition leaving_world :: world where
  "leaving_world =
     (scenario_world
        [(''p1'', (scenario_tank ''p1'' ''light'' 100 100 0)\<lparr>activeProjectileId := Some 0\<rparr>)])
       \<lparr>projectiles := [\<lparr>pid = 0, owner = ''p1'', px = 1203, py = 100, vx = 420, vy = 0\<rparr>],
        idCounter := 1\<rparr>"


text \<open>A world in which \<open>p1\<close> has just started a left turn of \<open>4\<close> degrees, two ticks long.\<close>

definition turning_world :: world where
  "turning_world =
     scenario_world
       [(''p1'', (scenario_tank ''p1'' ''light'' 100 100 0)
                   \<lparr>busyUntil := Fin (1 / 30), activeAction := Some TurnLeft\<rparr>),
        (''p2'', scenario_tank ''p2'' ''light'' 900 600 180)]"

section \<open>Special values\<close>

lemma js_sub_Fin [simp]:
  "js_sub (Fin b) (Fin e) = Fin (b - e)" "js_sub PInf (Fin e) = PInf"
  "js_sub NInf (Fin e) = NInf" "js_sub NaN (Fin e) = NaN"
  by (simp_all add: js_sub_def)

lemma js_add_Fin_NaN [simp]: "js_add (Fin a) NaN = NaN"
  by simp

lemma js_div_turn:
  "0 < r \<Longrightarrow> js_div (js_abs d) (Fin r) =
     (case d of Fin a \<Rightarrow> Fin (\<bar>a\<bar> / r) | PInf \<Rightarrow> PInf | NInf \<Rightarrow> PInf | NaN \<Rightarrow> NaN)"
  by (cases d) simp_all

lemma js_ge_never [simp]:
  "\<not> js_ge (Fin a) (js_sub PInf (Fin e))" "\<not> js_ge (Fin a) (js_sub NaN (Fin e))"
  by simp_all


section \<open>Facts about normalisation\<close>

lemma js_rem_360_bounds: "- 360 < js_rem d 360 \<and> js_rem d 360 < 360"
proof (cases "d / 360 < 0")
  case True
  define c where "c = real_of_int \<lceil>d / 360\<rceil>"
  have "c < d / 360 + 1" "d / 360 \<le> c" unfolding c_def by linarith+
  moreover have "c \<le> 0" using True unfolding c_def by (simp add: ceiling_le_zero)
  moreover have "js_rem d 360 = d - 360 * c" using True by (simp add: js_rem_def c_def)
  ultimately show ?thesis by (simp add: field_simps)
next
  case False
  define c where "c = real_of_int \<lfloor>d / 360\<rfloor>"
  have "c \<le> d / 360" "d / 360 < c + 1" unfolding c_def by linarith+
  moreover have "js_rem d 360 = d - 360 * c" using False by (simp add: js_rem_def c_def)
  ultimately show ?thesis by (simp add: field_simps)
qed

lemma js_rem_nonneg: "0 \<le> u \<Longrightarrow> js_rem u 360 = u - 360 * of_int \<lfloor>u / 360\<rfloor>"
  by (simp add: js_rem_def not_less)

lemma js_rem_360_shift: "\<exists>k::int. js_rem d 360 = d - 360 * of_int k"
  unfolding js_rem_def by blast

lemma normalizeDeg_floor: "normalizeDeg d = d - 360 * of_int \<lfloor>d / 360\<rfloor>"
proof -
  obtain k :: int where k: "js_rem d 360 = d - 360 * of_int k"
    using js_rem_360_shift by blast
  have pos: "0 \<le> js_rem d 360 + 360" using js_rem_360_bounds [of d] by simp
  have e: "(js_rem d 360 + 360) / 360 = d / 360 + of_int (1 - k)"
    by (simp add: k field_simps)
  have "\<lfloor>(js_rem d 360 + 360) / 360\<rfloor> = \<lfloor>d / 360\<rfloor> + (1 - k)"
    by (simp only: e floor_add_int)
  then show ?thesis
    unfolding normalizeDeg_def js_rem_nonneg [OF pos] by (simp add: k algebra_simps)
qed

lemma normalizeDeg_range: "0 \<le> normalizeDeg d \<and> normalizeDeg d < 360"
proof -
  define c where "c = real_of_int \<lfloor>d / 360\<rfloor>"
  have "c \<le> d / 360" "d / 360 < c + 1" unfolding c_def by linarith+
  moreover have "normalizeDeg d = d - 360 * c" by (simp add: normalizeDeg_floor c_def)
  ultimately show ?thesis by (simp add: field_simps)
qed

lemma normalizeDeg_shift: "normalizeDeg (d + 360 * of_int k) = normalizeDeg d"
proof -
  have e: "(d + 360 * of_int k) / 360 = d / 360 + of_int k" by (simp add: field_simps)
  have "\<lfloor>(d + 360 * of_int k) / 360\<rfloor> = \<lfloor>d / 360\<rfloor> + k" by (simp only: e floor_add_int)
  then show ?thesis by (simp add: normalizeDeg_floor algebra_simps)
qed

lemma normalizeDeg_minus_inner: "normalizeDeg (normalizeDeg u - h) = normalizeDeg (u - h)"
proof -
  have "normalizeDeg u - h = (u - h) + 360 * of_int (- \<lfloor>u / 360\<rfloor>)"
    by (simp add: normalizeDeg_floor)
  then show ?thesis by (simp only: normalizeDeg_shift)
qed

lemma normalizeDeg_idem: "0 \<le> d \<Longrightarrow> d < 360 \<Longrightarrow> normalizeDeg d = d"
proof -
  assume "0 \<le> d" "d < 360"
  then have "\<lfloor>d / 360\<rfloor> = 0" by (simp add: floor_eq_iff)
  then show ?thesis by (simp add: normalizeDeg_floor)
qed

section \<open>One iteration of the action loop\<close>

lemma applyEffect_frame:
  "applyEffect c dt t a = Inr t1 \<Longrightarrow>
     hp t1 = hp t \<and> tankType t1 = tankType t \<and> busyUntil t1 = busyUntil t
     \<and> activeProjectileId t1 = activeProjectileId t \<and> activeAction t1 = activeAction t
     \<and> lastScanResult t1 = lastScanResult t \<and> tank_slot t1 = tank_slot t"
  by (cases a) (auto simp: applyEffect_def clampToArena_def Let_def split: option.splits)

lemma applyTank_skip:
  "hp t \<le> 0 \<or> activeAction t = None \<Longrightarrow> applyTank c now dt entries s t = Inr (t, [])"
  by (auto simp: applyTank_def)

lemma applyTank_active:
  assumes "hp t > 0" "activeAction t = Some a"
  shows "applyTank c now dt entries s t =
     (case applyEffect c dt t a of
        Inl e \<Rightarrow> Inl e
      | Inr t1 \<Rightarrow>
          if js_ge (Fin (now + dt)) (js_sub (busyUntil t) (Fin EPSILON)) then
            Inr ((case a of
                    Scan aDeg bDeg \<Rightarrow>
                      t1\<lparr>lastScanResult := Some (scanOpponents c s t1 aDeg bDeg entries)\<rparr>
                  | _ \<Rightarrow> t1)\<lparr>activeAction := None\<rparr>,
                 [(s, action_type a,
                   (case a of Scan aDeg bDeg \<Rightarrow> Some (scanOpponents c s t1 aDeg bDeg entries)
                    | _ \<Rightarrow> None))])
          else Inr (t1, []))"
  using assms
  by (cases a)
     (auto simp: applyTank_def Let_def split: sum.splits dest: applyEffect_frame)

lemma applyTank_frame:
  assumes "applyTank c now dt entries s t = Inr (t', ds)"
  shows "hp t' = hp t \<and> tankType t' = tankType t \<and> busyUntil t' = busyUntil t
     \<and> activeProjectileId t' = activeProjectileId t \<and> tank_slot t' = tank_slot t"
proof (cases "hp t \<le> 0 \<or> activeAction t = None")
  case True
  with assms show ?thesis by (simp add: applyTank_skip)
next
  case False
  then obtain a where a: "hp t > 0" "activeAction t = Some a" by auto
  from assms obtain t1 where t1: "applyEffect c dt t a = Inr t1"
    unfolding applyTank_active [OF a] by (auto split: sum.splits)
  note fr = applyEffect_frame [OF t1]
  from assms show ?thesis
    unfolding applyTank_active [OF a] t1 using fr
    by (cases a) (auto split: if_splits)
qed


lemma applyLoop_rel:
  "applyLoop c now dt done todo = Inr (tks, ds) \<Longrightarrow>
     \<exists>tks'. tks = done @ tks' \<and> list_all2 (tick_rel c now dt) todo tks'"
proof (induction todo arbitrary: "done" tks ds)
  case Nil
  then show ?case by simp
next
  case (Cons e todo)
  obtain s t where e: "e = (s, t)" by (cases e)
  from Cons.prems obtain t' ds1 tks1 ds2 where
    one: "applyTank c now dt (done @ (s, t) # todo) s t = Inr (t', ds1)" and
    rest: "applyLoop c now dt (done @ [(s, t')]) todo = Inr (tks1, ds2)" and
    res: "tks = tks1" "ds = ds1 @ ds2"
    by (auto simp: e split: sum.splits prod.splits)
  from Cons.IH [OF rest] obtain tks' where
    tks': "tks1 = (done @ [(s, t')]) @ tks'" "list_all2 (tick_rel c now dt) todo tks'"
    by blast
  have "tick_rel c now dt e (s, t')" using one by (auto simp: tick_rel_def e)
  with tks' res show ?case by (intro exI [of _ "(s, t') # tks'"]) simp
qed

lemma applyTank_desc:
  "applyTank c now dt entries s t = Inr (t', ds) \<Longrightarrow> d \<in> set ds \<Longrightarrow>
     \<exists>a r. hp t > 0 \<and> activeAction t = Some a \<and> js_ge (Fin (now + dt)) (js_sub (busyUntil t) (Fin EPSILON))
        \<and> d = (s, action_type a, r) \<and> activeAction t' = None"
proof (cases "hp t \<le> 0 \<or> activeAction t = None")
  case True
  assume "applyTank c now dt entries s t = Inr (t', ds)" "d \<in> set ds"
  with True show ?thesis by (simp add: applyTank_skip)
next
  case False
  assume *: "applyTank c now dt entries s t = Inr (t', ds)" "d \<in> set ds"
  from False obtain a where a: "hp t > 0" "activeAction t = Some a" by auto
  from * show ?thesis
    unfolding applyTank_active [OF a] using a
    by (auto split: sum.splits if_splits)
qed

lemma applyLoop_events_sound:
  "applyLoop c now dt done todo = Inr (tks, ds) \<Longrightarrow> d \<in> set ds \<Longrightarrow>
     \<exists>t a r. (fst d, t) \<in> set todo \<and> hp t > 0 \<and> activeAction t = Some a
        \<and> js_ge (Fin (now + dt)) (js_sub (busyUntil t) (Fin EPSILON)) \<and> d = (fst d, action_type a, r)"
proof (induction todo arbitrary: "done" tks ds)
  case Nil
  then show ?case by simp
next
  case (Cons e todo)
  obtain s t where e: "e = (s, t)" by (cases e)
  from Cons.prems(1) obtain t' ds1 tks1 ds2 where
    one: "applyTank c now dt (done @ (s, t) # todo) s t = Inr (t', ds1)" and
    rest: "applyLoop c now dt (done @ [(s, t')]) todo = Inr (tks1, ds2)" and
    res: "tks = tks1" "ds = ds1 @ ds2"
    by (auto simp: e split: sum.splits prod.splits)
  from Cons.prems(2) res consider "d \<in> set ds1" | "d \<in> set ds2" by auto
  then show ?case
  proof cases
    case 1
    from applyTank_desc [OF one 1] show ?thesis by (auto simp: e)
  next
    case 2
    from Cons.IH [OF rest 2] show ?thesis by auto
  qed
qed

lemma applyLoop_events_complete:
  "applyLoop c now dt done todo = Inr (tks, ds) \<Longrightarrow> (s, t) \<in> set todo \<Longrightarrow> hp t > 0 \<Longrightarrow>
     activeAction t = Some a \<Longrightarrow> js_ge (Fin (now + dt)) (js_sub (busyUntil t) (Fin EPSILON)) \<Longrightarrow>
     \<exists>r. (s, action_type a, r) \<in> set ds"
proof (induction todo arbitrary: "done" tks ds)
  case Nil
  then show ?case by simp
next
  case (Cons e todo)
  obtain s0 t0 where e: "e = (s0, t0)" by (cases e)
  from Cons.prems(1) obtain t' ds1 tks1 ds2 where
    one: "applyTank c now dt (done @ (s0, t0) # todo) s0 t0 = Inr (t', ds1)" and
    rest: "applyLoop c now dt (done @ [(s0, t')]) todo = Inr (tks1, ds2)" and
    res: "tks = tks1" "ds = ds1 @ ds2"
    by (auto simp: e split: sum.splits prod.splits)
  from Cons.prems(2) consider "(s, t) = (s0, t0)" | "(s, t) \<in> set todo" by (auto simp: e)
  then show ?case
  proof cases
    case 1
    with one Cons.prems(3-5) have "\<exists>r. (s, action_type a, r) \<in> set ds1"
      by (auto simp: applyTank_active split: sum.splits)
    with res show ?thesis by auto
  next
    case 2
    from Cons.IH [OF rest 2 Cons.prems(3-5)] res show ?thesis by auto
  qed
qed

section \<open>What despawn and hit detection do to the tanks\<close>

lemma frame_rel_refl: "frame_rel e e"
  by (simp add: frame_rel_def) linarith

lemma frame_rel_trans: "frame_rel e1 e2 \<Longrightarrow> frame_rel e2 e3 \<Longrightarrow> frame_rel e1 e3"
  unfolding frame_rel_def by auto

lemma list_all2_frame_refl: "list_all2 frame_rel tks tks"
  by (simp add: list_all2_refl frame_rel_refl)

lemma list_all2_frame_trans:
  "list_all2 frame_rel a b \<Longrightarrow> list_all2 frame_rel b c \<Longrightarrow> list_all2 frame_rel a c"
  by (rule list_all2_trans [of frame_rel frame_rel frame_rel]) (rule frame_rel_trans)

lemma list_all2_map_of:
  assumes "list_all2 R xs ys" and "\<And>e e'. R e e' \<Longrightarrow> fst e' = fst e"
    and "map_of xs k = Some v"
  shows "\<exists>v'. map_of ys k = Some v' \<and> R (k, v) (k, v')"
  using assms(1,3)
proof (induction xs ys rule: list_all2_induct)
  case Nil
  then show ?case by simp
next
  case (Cons x xs y ys)
  obtain kx vx where x: "x = (kx, vx)" by (cases x)
  obtain ky vy where y: "y = (ky, vy)" by (cases y)
  from assms(2) [OF Cons.hyps(1)] have k: "ky = kx" by (simp add: x y)
  show ?case
  proof (cases "kx = k")
    case True
    with Cons.prems Cons.hyps(1) show ?thesis by (simp add: x y k)
  next
    case False
    with Cons.prems have "map_of xs k = Some v" by (simp add: x)
    from Cons.IH [OF this] False show ?thesis by (simp add: y k)
  qed
qed

lemma list_all2_keys:
  assumes "list_all2 R xs ys" and "\<And>e e'. R e e' \<Longrightarrow> fst e' = fst e"
  shows "map fst ys = map fst xs"
  using assms(1) by (induction xs ys rule: list_all2_induct) (auto dest: assms(2))

lemma update_frame:
  "map_of tks k = Some v0 \<Longrightarrow> frame_rel (k, v0) (k, v) \<Longrightarrow>
     list_all2 frame_rel tks (AList.update k v tks)"
proof (induction tks)
  case Nil
  then show ?case by simp
next
  case (Cons e tks)
  show ?case
  proof (cases "fst e = k")
    case True
    with Cons.prems have "e = (k, v0)" by (cases e) simp
    with Cons.prems(2) show ?thesis by (simp add: list_all2_frame_refl)
  next
    case False
    with Cons.prems have "map_of tks k = Some v0" by (cases e) simp
    from Cons.IH [OF this Cons.prems(2)] False show ?thesis
      by (cases e) (simp add: frame_rel_refl)
  qed
qed

lemma clearProjectileFromOwner_frame:
  "list_all2 frame_rel tks (clearProjectileFromOwner tks proj)"
proof (cases "map_of tks (owner proj)")
  case None
  then show ?thesis by (simp add: clearProjectileFromOwner_def list_all2_frame_refl)
next
  case (Some ownerTank)
  have "frame_rel (owner proj, ownerTank) (owner proj, ownerTank\<lparr>activeProjectileId := None\<rparr>)"
    by (simp add: frame_rel_def) linarith
  from update_frame [OF Some this] Some show ?thesis
    by (simp add: clearProjectileFromOwner_def list_all2_frame_refl)
qed

lemma despawnLoop_frame:
  "despawnLoop c ps tks = (tks', ps', evs) \<Longrightarrow> list_all2 frame_rel tks tks'"
proof (induction ps arbitrary: tks tks' ps' evs)
  case Nil
  then show ?case by (simp add: list_all2_frame_refl)
next
  case (Cons proj ps)
  show ?case
  proof (cases "outOfBounds c proj")
    case True
    with Cons.prems obtain ps1 evs1 where
      "despawnLoop c ps (clearProjectileFromOwner tks proj) = (tks', ps1, evs1)"
      by (auto split: prod.splits)
    from Cons.IH [OF this] clearProjectileFromOwner_frame [of tks proj]
    show ?thesis by (rule list_all2_frame_trans [rotated])
  next
    case False
    with Cons.prems obtain ps1 evs1 where "despawnLoop c ps tks = (tks', ps1, evs1)"
      by (auto split: prod.splits)
    from Cons.IH [OF this] show ?thesis .
  qed
qed

lemma hitTanks_frame:
  "hitTanks c proj tks = Some (tks', hitSlot) \<Longrightarrow> list_all2 frame_rel tks tks'"
proof (induction tks arbitrary: tks')
  case Nil
  then show ?case by simp
next
  case (Cons e tks)
  obtain s t where e: "e = (s, t)" by (cases e)
  from Cons.prems consider
    (skip) r where "hitTanks c proj tks = Some (r, hitSlot)" "tks' = (s, t) # r"
    | (hit) "0 < hp t"
        "tks' = (s, t\<lparr>hp := (if hp t - PROJECTILE_DAMAGE c < 0 then 0
                                else hp t - PROJECTILE_DAMAGE c)\<rparr>) # tks"
    by (auto simp: e Let_def split: if_splits)
  then show ?case
  proof cases
    case skip
    from Cons.IH [OF skip(1)] skip(2) show ?thesis by (simp add: e frame_rel_refl)
  next
    case hit
    then have "frame_rel (s, t)
        (s, t\<lparr>hp := (if hp t - PROJECTILE_DAMAGE c < 0 then 0 else hp t - PROJECTILE_DAMAGE c)\<rparr>)"
      by (simp add: frame_rel_def)
    with hit show ?thesis by (simp add: e list_all2_frame_refl)
  qed
qed

lemma hitLoop_frame:
  "hitLoop c ps tks = (tks', ps', evs) \<Longrightarrow> list_all2 frame_rel tks tks'"
proof (induction ps arbitrary: tks tks' ps' evs)
  case Nil
  then show ?case by (simp add: list_all2_frame_refl)
next
  case (Cons proj ps)
  show ?case
  proof (cases "hitTanks c proj tks")
    case None
    with Cons.prems obtain ps1 evs1 where "hitLoop c ps tks = (tks', ps1, evs1)"
      by (auto split: prod.splits)
    from Cons.IH [OF this] show ?thesis .
  next
    case (Some r)
    obtain tks1 hitSlot where r: "r = (tks1, hitSlot)" by (cases r)
    with Some Cons.prems obtain ps1 evs1 where
      "hitLoop c ps (clearProjectileFromOwner tks1 proj) = (tks', ps1, evs1)"
      by (auto split: prod.splits)
    from Cons.IH [OF this] have "list_all2 frame_rel (clearProjectileFromOwner tks1 proj) tks'" .
    with clearProjectileFromOwner_frame [of tks1 proj]
    have "list_all2 frame_rel tks1 tks'" by (rule list_all2_frame_trans)
    with hitTanks_frame [OF Some [unfolded r]] show ?thesis by (rule list_all2_frame_trans)
  qed
qed

section \<open>The phases of a tick\<close>

lemma step_phases:
  "step w = Inr (w', evs) \<longleftrightarrow>
     (\<exists>tks1 ds tks2 ps2 ev2 tks3 ps3 ev3.
        applyLoop (constants w) (world_t w) (1 / TICK_RATE (constants w)) [] (tanks w) = Inr (tks1, ds)
        \<and> despawnLoop (constants w)
             (moveProjectiles (1 / TICK_RATE (constants w)) (projectiles w)) tks1 = (tks2, ps2, ev2)
        \<and> hitLoop (constants w) ps2 tks2 = (tks3, ps3, ev3)
        \<and> w' = w\<lparr>tanks := tks3, projectiles := ps3,
                  world_t := world_t w + 1 / TICK_RATE (constants w)\<rparr>
        \<and> evs = map completionEvent ds @ ev2 @ ev3
                 @ matchEnd (constants w) (world_t w + 1 / TICK_RATE (constants w)) tks3)"
  unfolding step_def applyActiveActions_def Let_def completionEvent_def
  by (auto split: sum.splits prod.splits)

lemma despawnLoop_result:
  "despawnLoop c ps tks = (tks', ps', evs) \<Longrightarrow>
     ps' = filter (\<lambda>p. \<not> outOfBounds c p) ps
     \<and> evs = map (\<lambda>p. Despawn (pid p) (owner p) ''oob'') (filter (outOfBounds c) ps)"
  by (induction ps arbitrary: tks tks' ps' evs) (auto split: if_splits prod.splits)

lemma hitLoop_result:
  "hitLoop c ps tks = (tks', ps', evs) \<Longrightarrow>
     set ps' \<subseteq> set ps
     \<and> (\<forall>e \<in> set evs. \<exists>p \<in> set ps. \<exists>hitSlot.
            e = Hit (pid p) (owner p) hitSlot (PROJECTILE_DAMAGE c))"
proof (induction ps arbitrary: tks tks' ps' evs)
  case Nil
  then show ?case by simp
next
  case (Cons proj ps)
  show ?case
  proof (cases "hitTanks c proj tks")
    case None
    with Cons.prems obtain ps1 where
      r: "hitLoop c ps tks = (tks', ps1, evs)" "ps' = proj # ps1"
      by (auto split: prod.splits)
    from Cons.IH [OF r(1)] r(2) show ?thesis by auto
  next
    case (Some r)
    obtain tks1 hitSlot where r: "r = (tks1, hitSlot)" by (cases r)
    with Some Cons.prems obtain evs1 where
      l: "hitLoop c ps (clearProjectileFromOwner tks1 proj) = (tks', ps', evs1)"
        "evs = Hit (pid proj) (owner proj) hitSlot (PROJECTILE_DAMAGE c) # evs1"
      by (auto split: prod.splits)
    from Cons.IH [OF l(1)] l(2) show ?thesis by auto
  qed
qed

lemma clear_lookup:
  "map_of tks s = Some t \<Longrightarrow>
     map_of (clearProjectileFromOwner tks proj) s =
       Some (if owner proj = s \<and> activeProjectileId t = Some (pid proj)
             then t\<lparr>activeProjectileId := None\<rparr> else t)"
  by (auto simp: clearProjectileFromOwner_def update_conv' split: option.splits)

lemma frame_rel_fst: "frame_rel e e' \<Longrightarrow> fst e' = fst e"
  by (simp add: frame_rel_def)

lemma frame_lookup:
  "list_all2 frame_rel tks tks' \<Longrightarrow> map_of tks s = Some t \<Longrightarrow>
     \<exists>t'. map_of tks' s = Some t' \<and> frame_rel (s, t) (s, t')"
  by (rule list_all2_map_of [of frame_rel, OF _ frame_rel_fst])

lemma frame_none:
  "list_all2 frame_rel tks tks' \<Longrightarrow> map_of tks s = Some t \<Longrightarrow> activeProjectileId t = None \<Longrightarrow>
     \<exists>t'. map_of tks' s = Some t' \<and> activeProjectileId t' = None"
  by (drule (1) frame_lookup) (auto simp: frame_rel_def)

lemma despawnLoop_clears:
  "despawnLoop c ps tks = (tks', ps', evs) \<Longrightarrow> Despawn i s r \<in> set evs \<Longrightarrow>
     map_of tks s = Some t \<Longrightarrow> activeProjectileId t = Some i \<Longrightarrow>
     \<exists>t'. map_of tks' s = Some t' \<and> activeProjectileId t' = None"
proof (induction ps arbitrary: tks tks' ps' evs t)
  case Nil
  then show ?case by simp
next
  case (Cons proj ps)
  show ?case
  proof (cases "outOfBounds c proj")
    case False
    with Cons.prems(1) obtain ps1 where "despawnLoop c ps tks = (tks', ps1, evs)"
      by (auto split: prod.splits)
    from Cons.IH [OF this Cons.prems(2-4)] show ?thesis .
  next
    case True
    let ?tks1 = "clearProjectileFromOwner tks proj"
    from True Cons.prems(1) obtain ps1 evs1 where
      l: "despawnLoop c ps ?tks1 = (tks', ps1, evs1)"
         "evs = Despawn (pid proj) (owner proj) ''oob'' # evs1"
      by (auto split: prod.splits)
    note look = clear_lookup [OF Cons.prems(3), of proj]
    show ?thesis
    proof (cases "owner proj = s \<and> pid proj = i")
      case True
      with look Cons.prems(4) have "map_of ?tks1 s = Some (t\<lparr>activeProjectileId := None\<rparr>)"
        by simp
      from frame_none [OF despawnLoop_frame [OF l(1)] this] show ?thesis by simp
    next
      case False
      with look Cons.prems(4) have 1: "map_of ?tks1 s = Some t" by auto
      from False l(2) Cons.prems(2) have "Despawn i s r \<in> set evs1" by auto
      from Cons.IH [OF l(1) this 1 Cons.prems(4)] show ?thesis .
    qed
  qed
qed

lemma hitLoop_clears:
  "hitLoop c ps tks = (tks', ps', evs) \<Longrightarrow> Hit i s hitSlot dmg \<in> set evs \<Longrightarrow>
     map_of tks s = Some t \<Longrightarrow> activeProjectileId t = Some i \<Longrightarrow>
     \<exists>t'. map_of tks' s = Some t' \<and> activeProjectileId t' = None"
proof (induction ps arbitrary: tks tks' ps' evs t)
  case Nil
  then show ?case by simp
next
  case (Cons proj ps)
  show ?case
  proof (cases "hitTanks c proj tks")
    case None
    with Cons.prems(1) obtain ps1 where "hitLoop c ps tks = (tks', ps1, evs)"
      by (auto split: prod.splits)
    from Cons.IH [OF this Cons.prems(2-4)] show ?thesis .
  next
    case (Some r0)
    obtain tks1 hs where r0: "r0 = (tks1, hs)" by (cases r0)
    let ?tks2 = "clearProjectileFromOwner tks1 proj"
    from Some r0 Cons.prems(1) obtain evs1 where
      l: "hitLoop c ps ?tks2 = (tks', ps', evs1)"
         "evs = Hit (pid proj) (owner proj) hs (PROJECTILE_DAMAGE c) # evs1"
      by (auto split: prod.splits)
    from frame_lookup [OF hitTanks_frame [OF Some [unfolded r0]] Cons.prems(3)]
    obtain t1 where t1: "map_of tks1 s = Some t1" "frame_rel (s, t) (s, t1)" by blast
    then have ap: "activeProjectileId t1 = None \<or> activeProjectileId t1 = Some i"
      using Cons.prems(4) by (auto simp: frame_rel_def)
    note look = clear_lookup [OF t1(1), of proj]
    show ?thesis
    proof (cases "activeProjectileId t1 = Some i \<and> \<not> (owner proj = s \<and> pid proj = i)")
      case True
      with look have 1: "map_of ?tks2 s = Some t1" by auto
      from True l(2) Cons.prems(2) have "Hit i s hitSlot dmg \<in> set evs1" by auto
      from Cons.IH [OF l(1) this 1] True show ?thesis by simp
    next
      case False
      with look ap obtain t2 where "map_of ?tks2 s = Some t2" "activeProjectileId t2 = None"
        by (cases "owner proj = s \<and> activeProjectileId t1 = Some (pid proj)") auto
      from frame_none [OF hitLoop_frame [OF l(1)] this] show ?thesis .
    qed
  qed
qed

lemma matchEnd_kind: "e \<in> set (matchEnd c now tks) \<Longrightarrow> \<exists>winner reason. e = MatchEnd winner reason"
  by (auto simp: matchEnd_def Let_def split: if_splits)

section \<open>A tank across one tick\<close>

lemma tick_rel_fst: "tick_rel c now dt e e' \<Longrightarrow> fst e' = fst e"
  by (simp add: tick_rel_def)

lemma tick_lookup:
  "list_all2 (tick_rel c now dt) tks tks' \<Longrightarrow> map_of tks s = Some t \<Longrightarrow>
     \<exists>t'. map_of tks' s = Some t' \<and> tick_rel c now dt (s, t) (s, t')"
  by (rule list_all2_map_of [of "tick_rel c now dt", OF _ tick_rel_fst])

lemma tick_keys: "list_all2 (tick_rel c now dt) tks tks' \<Longrightarrow> map fst tks' = map fst tks"
  by (rule list_all2_keys [of "tick_rel c now dt", OF _ tick_rel_fst])

lemma frame_keys: "list_all2 frame_rel tks tks' \<Longrightarrow> map fst tks' = map fst tks"
  by (rule list_all2_keys [of frame_rel, OF _ frame_rel_fst])

lemma completionEvent_eq:
  "ActionComplete s actionType r = completionEvent d \<longleftrightarrow> d = (s, actionType, r)"
  by (cases d) (auto simp: completionEvent_def)

lemma step_frame:
  assumes "step w = Inr (w', evs)"
  shows "world_t w' = world_t w + 1 / TICK_RATE (constants w)"
    and "constants w' = constants w"
    and "idCounter w' = idCounter w"
    and "map fst (tanks w') = map fst (tanks w)"
proof -
  from assms obtain tks1 ds tks2 ps2 ev2 tks3 ps3 ev3 where
    ph: "applyLoop (constants w) (world_t w) (1 / TICK_RATE (constants w)) [] (tanks w) = Inr (tks1, ds)"
      "despawnLoop (constants w)
         (moveProjectiles (1 / TICK_RATE (constants w)) (projectiles w)) tks1 = (tks2, ps2, ev2)"
      "hitLoop (constants w) ps2 tks2 = (tks3, ps3, ev3)"
      "w' = w\<lparr>tanks := tks3, projectiles := ps3,
               world_t := world_t w + 1 / TICK_RATE (constants w)\<rparr>"
    unfolding step_phases by blast
  from ph(4) show "world_t w' = world_t w + 1 / TICK_RATE (constants w)"
    "constants w' = constants w" "idCounter w' = idCounter w" by simp_all
  from applyLoop_rel [OF ph(1)] have "map fst tks1 = map fst (tanks w)"
    by (auto dest: tick_keys)
  moreover from despawnLoop_frame [OF ph(2)] have "map fst tks2 = map fst tks1"
    by (rule frame_keys)
  moreover from hitLoop_frame [OF ph(3)] have "map fst tks3 = map fst tks2"
    by (rule frame_keys)
  ultimately show "map fst (tanks w') = map fst (tanks w)" using ph(4) by simp
qed

lemma step_tank:
  assumes "step w = Inr (w', evs)" "map_of (tanks w) s = Some t"
  shows "\<exists>entries t1 ds1 t'.
           applyTank (constants w) (world_t w) (1 / TICK_RATE (constants w)) entries s t = Inr (t1, ds1)
           \<and> map_of (tanks w') s = Some t' \<and> frame_rel (s, t1) (s, t')"
proof -
  from assms(1) obtain tks1 ds tks2 ps2 ev2 tks3 ps3 ev3 where
    ph: "applyLoop (constants w) (world_t w) (1 / TICK_RATE (constants w)) [] (tanks w) = Inr (tks1, ds)"
      "despawnLoop (constants w)
         (moveProjectiles (1 / TICK_RATE (constants w)) (projectiles w)) tks1 = (tks2, ps2, ev2)"
      "hitLoop (constants w) ps2 tks2 = (tks3, ps3, ev3)"
      "w' = w\<lparr>tanks := tks3, projectiles := ps3,
               world_t := world_t w + 1 / TICK_RATE (constants w)\<rparr>"
    unfolding step_phases by blast
  from applyLoop_rel [OF ph(1)]
  have "list_all2 (tick_rel (constants w) (world_t w) (1 / TICK_RATE (constants w))) (tanks w) tks1"
    by simp
  from tick_lookup [OF this assms(2)] obtain t1 entries ds1 where
    t1: "map_of tks1 s = Some t1"
      "applyTank (constants w) (world_t w) (1 / TICK_RATE (constants w)) entries s t = Inr (t1, ds1)"
    by (auto simp: tick_rel_def)
  have "list_all2 frame_rel tks1 tks3"
    using despawnLoop_frame [OF ph(2)] hitLoop_frame [OF ph(3)] by (rule list_all2_frame_trans)
  from frame_lookup [OF this t1(1)] obtain t' where
    "map_of tks3 s = Some t'" "frame_rel (s, t1) (s, t')" by blast
  with t1(2) ph(4) show ?thesis by auto
qed

lemma step_completions:
  assumes "step w = Inr (w', evs)"
  shows "ActionComplete s actionType r \<in> set evs \<longleftrightarrow>
           (\<exists>tks1 ds. applyLoop (constants w) (world_t w) (1 / TICK_RATE (constants w)) [] (tanks w)
                         = Inr (tks1, ds) \<and> (s, actionType, r) \<in> set ds)"
proof -
  from assms obtain tks1 ds tks2 ps2 ev2 tks3 ps3 ev3 where
    ph: "applyLoop (constants w) (world_t w) (1 / TICK_RATE (constants w)) [] (tanks w) = Inr (tks1, ds)"
      "despawnLoop (constants w)
         (moveProjectiles (1 / TICK_RATE (constants w)) (projectiles w)) tks1 = (tks2, ps2, ev2)"
      "hitLoop (constants w) ps2 tks2 = (tks3, ps3, ev3)"
      "evs = map completionEvent ds @ ev2 @ ev3
                 @ matchEnd (constants w) (world_t w + 1 / TICK_RATE (constants w)) tks3"
    unfolding step_phases by blast
  have 2: "ActionComplete s actionType r \<notin> set ev2"
    using despawnLoop_result [OF ph(2)] by auto
  have 3: "ActionComplete s actionType r \<notin> set ev3"
    using hitLoop_result [OF ph(3)] by auto
  have 4: "ActionComplete s actionType r \<notin>
      set (matchEnd (constants w) (world_t w + 1 / TICK_RATE (constants w)) tks3)"
    by (auto dest: matchEnd_kind)
  have "ActionComplete s actionType r \<in> set (map completionEvent ds) \<longleftrightarrow> (s, actionType, r) \<in> set ds"
    by (auto simp: image_iff completionEvent_eq)
  with 2 3 4 ph(1,4) show ?thesis by auto
qed

lemma step_tank_active:
  assumes st: "step w = Inr (w', evs)"
    and d: "distinct (map fst (tanks w))"
    and t: "map_of (tanks w) s = Some t" "hp t > 0" "activeAction t = Some a"
  shows "\<exists>t1 t'. applyEffect (constants w) (1 / TICK_RATE (constants w)) t a = Inr t1
           \<and> map_of (tanks w') s = Some t'
           \<and> tx t' = tx t1 \<and> ty t' = ty t1 \<and> headingDeg t' = headingDeg t1
           \<and> busyUntil t' = busyUntil t \<and> tankType t' = tankType t
           \<and> (if js_ge (Fin (world_t w + 1 / TICK_RATE (constants w))) (js_sub (busyUntil t) (Fin EPSILON))
               then activeAction t' = None
                    \<and> (\<exists>r. ActionComplete s (action_type a) r \<in> set evs)
               else activeAction t' = Some a
                    \<and> (\<forall>actionType r. ActionComplete s actionType r \<notin> set evs))"
proof -
  let ?c = "constants w" and ?dt = "1 / TICK_RATE (constants w)"
  from step_tank [OF st t(1)] obtain entries t1 ds1 t' where
    one: "applyTank ?c (world_t w) ?dt entries s t = Inr (t1, ds1)"
      "map_of (tanks w') s = Some t'" "frame_rel (s, t1) (s, t')"
    by blast
  from one(1) obtain t0 where t0: "applyEffect ?c ?dt t a = Inr t0"
    unfolding applyTank_active [OF t(2,3)] by (auto split: sum.splits)
  note fr0 = applyEffect_frame [OF t0]
  from st obtain tks1 ds where
    loop: "applyLoop ?c (world_t w) ?dt [] (tanks w) = Inr (tks1, ds)"
    unfolding step_phases by blast
  have mem: "(s, t) \<in> set (tanks w)" using t(1) by (rule map_of_SomeD)
  show ?thesis
  proof (cases "js_ge (Fin (world_t w + ?dt)) (js_sub (busyUntil t) (Fin EPSILON))")
    case True
    from one(1) True have "activeAction t1 = None \<and> tx t1 = tx t0 \<and> ty t1 = ty t0
        \<and> headingDeg t1 = headingDeg t0 \<and> busyUntil t1 = busyUntil t0 \<and> tankType t1 = tankType t0"
      unfolding applyTank_active [OF t(2,3)] t0 by (cases a) auto
    moreover from applyLoop_events_complete [OF loop mem t(2,3) True]
    have "\<exists>r. ActionComplete s (action_type a) r \<in> set evs"
      unfolding step_completions [OF st] using loop by auto
    ultimately show ?thesis using True t0 fr0 one(2,3) by (auto simp: frame_rel_def)
  next
    case False
    from one(1) False have t1: "t1 = t0"
      unfolding applyTank_active [OF t(2,3)] t0 by auto
    have "\<forall>actionType r. ActionComplete s actionType r \<notin> set evs"
    proof (intro allI notI)
      fix actionType r
      assume "ActionComplete s actionType r \<in> set evs"
      then have "(s, actionType, r) \<in> set ds"
        unfolding step_completions [OF st] using loop by auto
      from applyLoop_events_sound [OF loop this] obtain t2 where
        "(s, t2) \<in> set (tanks w)" "js_ge (Fin (world_t w + ?dt)) (js_sub (busyUntil t2) (Fin EPSILON))" by auto
      moreover from this(1) d t(1) have "t2 = t" by (simp add: map_of_eq_Some_iff)
      ultimately show False using False by simp
    qed
    with False t0 fr0 one(2,3) t1 t(3) show ?thesis by (auto simp: frame_rel_def)
  qed
qed

section \<open>Projectiles across one tick\<close>



section \<open>Shooting\<close>

lemma map_set_mem: "proj \<in> set (map_set proj ps)"
  by (induction ps) auto

lemma map_set_fresh: "\<forall>q \<in> set ps. pid q \<noteq> pid proj \<Longrightarrow> map_set proj ps = ps @ [proj]"
  by (induction ps) auto

lemma shoot_result:
  assumes "map_of (tanks w) s = Some t"
  shows "shoot w s =
     (if activeProjectileId t \<noteq> None then Inr (False, w)
      else Inr (True,
        w\<lparr>idCounter := idCounter w + 1,
          projectiles :=
            map_set
              \<lparr>pid = idCounter w, owner = s,
               px = tx t + cos (headingDeg t * DEG2RAD)
                      * (TANK_RADIUS (constants w) + PROJECTILE_RADIUS (constants w) + 1),
               py = ty t + sin (headingDeg t * DEG2RAD)
                      * (TANK_RADIUS (constants w) + PROJECTILE_RADIUS (constants w) + 1),
               vx = cos (headingDeg t * DEG2RAD) * PROJECTILE_SPEED (constants w),
               vy = sin (headingDeg t * DEG2RAD) * PROJECTILE_SPEED (constants w)\<rparr>
              (projectiles w),
          tanks := AList.update s (t\<lparr>activeProjectileId := Some (idCounter w)\<rparr>) (tanks w)\<rparr>))"
  using assms by (simp add: shoot_def nextProjId_def setTank_def Let_def)

lemma speed_magnitude: "(cos r * v)\<^sup>2 + (sin r * v)\<^sup>2 = (v::real)\<^sup>2"
proof -
  have "(cos r * v)\<^sup>2 + (sin r * v)\<^sup>2 = ((cos r)\<^sup>2 + (sin r)\<^sup>2) * v\<^sup>2"
    by (simp only: power_mult_distrib distrib_right)
  then show ?thesis by (simp only: sin_cos_squared_add2 mult_1)
qed

lemma shoot_accepted:
  assumes "map_of (tanks w) s = Some t" "activeProjectileId t = None"
  shows "\<exists>w' p. shoot w s = Inr (True, w')
      \<and> pid p = idCounter w \<and> idCounter w' = idCounter w + 1 \<and> owner p = s
      \<and> px p = tx t + cos (headingDeg t * (pi / 180))
                  * (TANK_RADIUS (constants w) + PROJECTILE_RADIUS (constants w) + 1)
      \<and> py p = ty t + sin (headingDeg t * (pi / 180))
                  * (TANK_RADIUS (constants w) + PROJECTILE_RADIUS (constants w) + 1)
      \<and> vx p = cos (headingDeg t * (pi / 180)) * PROJECTILE_SPEED (constants w)
      \<and> vy p = sin (headingDeg t * (pi / 180)) * PROJECTILE_SPEED (constants w)
      \<and> (vx p)\<^sup>2 + (vy p)\<^sup>2 = (PROJECTILE_SPEED (constants w))\<^sup>2
      \<and> projectiles w' = map_set p (projectiles w) \<and> p \<in> set (projectiles w')
      \<and> (ids_below w \<longrightarrow> pid p \<notin> pid ` set (projectiles w)
            \<and> projectiles w' = projectiles w @ [p] \<and> ids_below w')
      \<and> map_of (tanks w') s = Some (t\<lparr>activeProjectileId := Some (pid p)\<rparr>)
      \<and> (\<forall>s'. s' \<noteq> s \<longrightarrow> map_of (tanks w') s' = map_of (tanks w) s')
      \<and> world_t w' = world_t w \<and> constants w' = constants w"
proof -
  let ?p = "\<lparr>pid = idCounter w, owner = s,
               px = tx t + cos (headingDeg t * (pi / 180))
                      * (TANK_RADIUS (constants w) + PROJECTILE_RADIUS (constants w) + 1),
               py = ty t + sin (headingDeg t * (pi / 180))
                      * (TANK_RADIUS (constants w) + PROJECTILE_RADIUS (constants w) + 1),
               vx = cos (headingDeg t * (pi / 180)) * PROJECTILE_SPEED (constants w),
               vy = sin (headingDeg t * (pi / 180)) * PROJECTILE_SPEED (constants w)\<rparr>"
  let ?w' = "w\<lparr>idCounter := idCounter w + 1, projectiles := map_set ?p (projectiles w),
          tanks := AList.update s (t\<lparr>activeProjectileId := Some (idCounter w)\<rparr>) (tanks w)\<rparr>"
  have sh: "shoot w s = Inr (True, ?w')"
    using shoot_result [OF assms(1)] assms(2) by (simp add: DEG2RAD_def)
  have fresh: "ids_below w \<longrightarrow> pid ?p \<notin> pid ` set (projectiles w)
            \<and> projectiles ?w' = projectiles w @ [?p] \<and> ids_below ?w'" (is ?F)
  proof
    assume b: "ids_below w"
    then have ne: "\<forall>q \<in> set (projectiles w). pid q \<noteq> pid ?p"
      by (auto simp: ids_below_def list_all_iff)
    from map_set_fresh [OF ne] have "projectiles ?w' = projectiles w @ [?p]" by simp
    moreover from this b have "ids_below ?w'"
      by (auto simp: ids_below_def list_all_iff less_Suc_eq)
    moreover from ne have "pid ?p \<notin> pid ` set (projectiles w)" by auto
    ultimately show "pid ?p \<notin> pid ` set (projectiles w)
            \<and> projectiles ?w' = projectiles w @ [?p] \<and> ids_below ?w'" by blast
  qed
  show ?thesis
  proof (intro exI [of _ ?w'] exI [of _ ?p] conjI)
    show "shoot w s = Inr (True, ?w')" by (rule sh)
    show ?F by (rule fresh)
  qed (simp_all add: map_set_mem update_conv' speed_magnitude)
qed

lemma step_clears:
  assumes st: "step w = Inr (w1, evs)"
    and t: "map_of (tanks w) s = Some t" "activeProjectileId t = Some i"
    and ev: "Despawn i s r \<in> set evs \<or> (\<exists>hitSlot dmg. Hit i s hitSlot dmg \<in> set evs)"
  shows "\<exists>t1. map_of (tanks w1) s = Some t1 \<and> activeProjectileId t1 = None"
proof -
  let ?c = "constants w" and ?dt = "1 / TICK_RATE (constants w)"
  from st obtain tks1 ds tks2 ps2 ev2 tks3 ps3 ev3 where
    ph: "applyLoop ?c (world_t w) ?dt [] (tanks w) = Inr (tks1, ds)"
      "despawnLoop ?c (moveProjectiles ?dt (projectiles w)) tks1 = (tks2, ps2, ev2)"
      "hitLoop ?c ps2 tks2 = (tks3, ps3, ev3)"
      "w1 = w\<lparr>tanks := tks3, projectiles := ps3, world_t := world_t w + ?dt\<rparr>"
      "evs = map completionEvent ds @ ev2 @ ev3 @ matchEnd ?c (world_t w + ?dt) tks3"
    unfolding step_phases by blast
  from applyLoop_rel [OF ph(1)] have "list_all2 (tick_rel ?c (world_t w) ?dt) (tanks w) tks1"
    by simp
  from tick_lookup [OF this t(1)] obtain ta where
    ta: "map_of tks1 s = Some ta" "tick_rel ?c (world_t w) ?dt (s, t) (s, ta)" by blast
  then have ta_id: "activeProjectileId ta = Some i"
    using t(2) by (auto simp: tick_rel_def dest: applyTank_frame)
  from frame_lookup [OF despawnLoop_frame [OF ph(2)] ta(1)] obtain tb where
    tb: "map_of tks2 s = Some tb" "frame_rel (s, ta) (s, tb)" by blast
  have kinds: "\<And>e. e \<in> set (map completionEvent ds) \<Longrightarrow> \<exists>a b c. e = ActionComplete a b c"
    "\<And>e. e \<in> set ev2 \<Longrightarrow> \<exists>a b c. e = Despawn a b c"
    "\<And>e. e \<in> set ev3 \<Longrightarrow> \<exists>a b c d. e = Hit a b c d"
    "\<And>e. e \<in> set (matchEnd ?c (world_t w + ?dt) tks3) \<Longrightarrow> \<exists>a b. e = MatchEnd a b"
    using despawnLoop_result [OF ph(2)] hitLoop_result [OF ph(3)]
    by (auto simp: completionEvent_def dest: matchEnd_kind split: prod.splits)
  from ev have "\<exists>t3. map_of tks3 s = Some t3 \<and> activeProjectileId t3 = None"
  proof
    assume "Despawn i s r \<in> set evs"
    with kinds ph(5) have "Despawn i s r \<in> set ev2" by fastforce
    from despawnLoop_clears [OF ph(2) this ta(1) ta_id] obtain tb' where
      "map_of tks2 s = Some tb'" "activeProjectileId tb' = None" by blast
    from frame_none [OF hitLoop_frame [OF ph(3)] this] show ?thesis .
  next
    assume "\<exists>hitSlot dmg. Hit i s hitSlot dmg \<in> set evs"
    then obtain hitSlot dmg where "Hit i s hitSlot dmg \<in> set evs" by blast
    with kinds ph(5) have h: "Hit i s hitSlot dmg \<in> set ev3" by fastforce
    from tb(2) ta_id consider "activeProjectileId tb = None" | "activeProjectileId tb = Some i"
      by (auto simp: frame_rel_def)
    then show ?thesis
    proof cases
      case 1
      from frame_none [OF hitLoop_frame [OF ph(3)] tb(1) 1] show ?thesis .
    next
      case 2
      from hitLoop_clears [OF ph(3) h tb(1) 2] show ?thesis .
    qed
  qed
  with ph(4) show ?thesis by simp
qed

section \<open>The starters\<close>

lemma map_of_setTank:
  "map_of (tanks (setTank s tank w)) s' = (if s' = s then Some tank else map_of (tanks w) s')"
  by (simp add: setTank_def update_conv')

lemma start_action_result:
  assumes "map_of (tanks w) s = Some tank"
    and "TANK_TYPES (constants w) (tankType tank) = Some stats"
  shows "start_action op w s =
           (if js_ge (Fin (world_t w)) (js_sub (busyUntil tank) (Fin (1 / 1000000000)))
            then Inr (True, setTank s
                   (tank\<lparr>busyUntil :=
                           js_add (Fin (world_t w)) (claimed_duration (constants w) stats op),
                         activeAction := Some (claimed_action op)\<rparr>) w)
            else Inr (False, w))"
  using assms
  by (cases op)
     (auto simp: turnLeft_def turnRight_def moveForward_def moveBackward_def scan_def
        isIdle_def beginAction_def claimed_duration_def split: option.splits)

section \<open>The watchdog hook\<close>

lemma server_timedAction_watchdog:
  "server_timedAction op w s api wd = Inr (accepted, w', api', wd') \<Longrightarrow> wd' = wd"
  by (auto simp: server_timedAction_def split: sum.splits if_splits)

lemma local_timedAction_watchdog:
  "local_timedAction op w s (register_hook api) wd = Inr (True, w', api', wd')
     \<Longrightarrow> resets wd' = resets wd + 1"
  by (auto simp: local_timedAction_def register_hook_def watchdog_reset_def Let_def
      split: sum.splits if_splits)

section \<open>Worlds reached from a created world\<close>

lemma list_all2_rev_mem:
  "list_all2 R xs ys \<Longrightarrow> y \<in> set ys \<Longrightarrow> \<exists>x \<in> set xs. R x y"
  by (induction xs ys rule: list_all2_induct) auto

lemma step_entries:
  assumes "step w = Inr (w', evs)" "(s, t') \<in> set (tanks w')"
  shows "\<exists>t t1 entries ds1. (s, t) \<in> set (tanks w)
           \<and> applyTank (constants w) (world_t w) (1 / TICK_RATE (constants w)) entries s t
               = Inr (t1, ds1)
           \<and> frame_rel (s, t1) (s, t')"
proof -
  let ?c = "constants w" and ?dt = "1 / TICK_RATE (constants w)"
  from assms(1) obtain tks1 ds tks2 ps2 ev2 tks3 ps3 ev3 where
    ph: "applyLoop ?c (world_t w) ?dt [] (tanks w) = Inr (tks1, ds)"
      "despawnLoop ?c (moveProjectiles ?dt (projectiles w)) tks1 = (tks2, ps2, ev2)"
      "hitLoop ?c ps2 tks2 = (tks3, ps3, ev3)"
      "w' = w\<lparr>tanks := tks3, projectiles := ps3, world_t := world_t w + ?dt\<rparr>"
    unfolding step_phases by blast
  have fr: "list_all2 frame_rel tks1 tks3"
    using despawnLoop_frame [OF ph(2)] hitLoop_frame [OF ph(3)] by (rule list_all2_frame_trans)
  from assms(2) ph(4) have "(s, t') \<in> set tks3" by simp
  from list_all2_rev_mem [OF fr this] obtain e1 where
    e1: "e1 \<in> set tks1" "frame_rel e1 (s, t')" by blast
  from applyLoop_rel [OF ph(1)] have "list_all2 (tick_rel ?c (world_t w) ?dt) (tanks w) tks1"
    by simp
  from list_all2_rev_mem [OF this e1(1)] obtain e0 where
    e0: "e0 \<in> set (tanks w)" "tick_rel ?c (world_t w) ?dt e0 e1" by blast
  obtain s1 t1 where [simp]: "e1 = (s1, t1)" by (cases e1)
  obtain s0 t0 where [simp]: "e0 = (s0, t0)" by (cases e0)
  from e1(2) have "s1 = s" by (simp add: frame_rel_def)
  moreover from e0(2) have "s0 = s1" by (simp add: tick_rel_def)
  ultimately show ?thesis using e0 e1 by (auto simp: tick_rel_def)
qed




lemma update_entries:
  "e \<in> set (AList.update k v al) \<Longrightarrow> e \<in> set al \<or> e = (k, v)"
  by (induction al) (auto split: if_splits)

lemma start_action_cases:
  assumes "start_action op w s = Inr (b, w')"
  shows "(\<not> b \<and> w' = w)
     \<or> (\<exists>tank D. map_of (tanks w) s = Some tank \<and> b
          \<and> w' = setTank s (tank\<lparr>busyUntil := js_add (Fin (world_t w)) D,
                                activeAction := Some (claimed_action op)\<rparr>) w
          \<and> (D = Fin (ACTION_DURATION (constants w))
              \<or> (\<exists>d stats. TANK_TYPES (constants w) (tankType tank) = Some stats
                    \<and> D = js_div (js_abs d) (Fin (turnRate stats)))))"
  using assms
  by (cases op)
     (auto simp: turnLeft_def turnRight_def moveForward_def moveBackward_def scan_def
        beginAction_def simp del: js_add.simps split: option.splits if_splits)


lemma shoot_cases:
  assumes "shoot w s = Inr (b, w')"
  shows "w' = w \<or> (\<exists>tank. map_of (tanks w) s = Some tank
      \<and> world_t w' = world_t w \<and> constants w' = constants w
      \<and> tanks w' = AList.update s (tank\<lparr>activeProjectileId := Some (idCounter w)\<rparr>) (tanks w))"
proof (cases "map_of (tanks w) s")
  case None
  with assms show ?thesis by (simp add: shoot_def)
next
  case (Some tank)
  from assms Some show ?thesis unfolding shoot_result [OF Some] by (auto split: if_splits)
qed


lemma spawnLoop_entries:
  "spawnLoop c (ARENA_WIDTH c / 2) (ARENA_HEIGHT c / 2)
      (min (ARENA_WIDTH c / 2) (ARENA_HEIGHT c / 2) * (55 / 100)) angleOffset n i players tks
     = Inr tks' \<Longrightarrow>
   \<forall>e \<in> set tks. fresh_tank c (snd e) \<Longrightarrow> \<forall>e \<in> set tks'. fresh_tank c (snd e)"
proof (induction players arbitrary: i tks)
  case Nil
  then show ?case by simp
next
  case (Cons pl players)
  obtain s type0 where pl: "pl = (s, type0)" by (cases pl)
  let ?angle = "angleOffset + (2 * pi * real i) / real n"
  from Cons.prems(1) obtain tank where
    ct: "createTank s (ARENA_WIDTH c / 2
            + cos ?angle * (min (ARENA_WIDTH c / 2) (ARENA_HEIGHT c / 2) * (55 / 100)))
          (ARENA_HEIGHT c / 2
            + sin ?angle * (min (ARENA_WIDTH c / 2) (ARENA_HEIGHT c / 2) * (55 / 100)))
          (js_rem ((?angle * 180 / pi) + 180) 360) type0 c = Inr tank"
    and rest: "spawnLoop c (ARENA_WIDTH c / 2) (ARENA_HEIGHT c / 2)
      (min (ARENA_WIDTH c / 2) (ARENA_HEIGHT c / 2) * (55 / 100)) angleOffset n (i + 1) players
      (AList.update s tank tks) = Inr tks'"
    by (auto simp: pl Let_def split: sum.splits)
  from ct have "fresh_tank c tank"
    by (auto simp: createTank_def fresh_tank_def split: option.splits)
  with Cons.prems(2) have "\<forall>e \<in> set (AList.update s tank tks). fresh_tank c (snd e)"
    by (auto dest!: update_entries)
  from Cons.IH [OF rest this] show ?case .
qed

lemma createWorld_result:
  assumes "createWorld seed0 c players = Inr w"
  shows "world_t w = 0" "constants w = c" "projectiles w = []" "idCounter w = 0"
    "\<forall>e \<in> set (tanks w). fresh_tank c (snd e)"
proof -
  from assms obtain tks players' angleOffset n r where
    sp: "spawnLoop c (ARENA_WIDTH c / 2) (ARENA_HEIGHT c / 2)
      (min (ARENA_WIDTH c / 2) (ARENA_HEIGHT c / 2) * (55 / 100)) angleOffset n 0 players' []
     = Inr tks"
    and w: "w = \<lparr>world_t = 0, seed = seed0, constants = c, rng = r, tanks = tks,
                  projectiles = [], nextProjectileId = 0, idCounter = 0\<rparr>"
    by (auto simp: createWorld_def Let_def split: prod.splits sum.splits)
  from w show "world_t w = 0" "constants w = c" "projectiles w = []" "idCounter w = 0"
    by simp_all
  from spawnLoop_entries [OF sp] w show "\<forall>e \<in> set (tanks w). fresh_tank c (snd e)" by simp
qed





section \<open>Positions\<close>

lemma ring_radius_nonneg:
  "arena_fits c \<Longrightarrow> 0 \<le> min (ARENA_WIDTH c / 2) (ARENA_HEIGHT c / 2) * (55 / 100)"
proof -
  assume "arena_fits c"
  then have "0 \<le> min (ARENA_WIDTH c / 2) (ARENA_HEIGHT c / 2)" by (simp add: arena_fits_def)
  then show ?thesis by (rule mult_nonneg_nonneg) simp
qed

lemma arena_fits_room:
  assumes "arena_fits c"
  shows "TANK_RADIUS c \<le> ARENA_WIDTH c - TANK_RADIUS c
     \<and> TANK_RADIUS c \<le> ARENA_HEIGHT c - TANK_RADIUS c"
proof -
  define r where "r = min (ARENA_WIDTH c / 2) (ARENA_HEIGHT c / 2) * (55 / 100)"
  from ring_radius_nonneg [OF assms] have "0 \<le> r" by (simp only: r_def)
  moreover from assms have "TANK_RADIUS c + r \<le> ARENA_WIDTH c / 2"
    "TANK_RADIUS c + r \<le> ARENA_HEIGHT c / 2" by (simp_all only: arena_fits_def r_def)
  ultimately show ?thesis by linarith
qed

lemma clampToArena_in_arena:
  assumes "TANK_RADIUS c \<le> ARENA_WIDTH c - TANK_RADIUS c"
    "TANK_RADIUS c \<le> ARENA_HEIGHT c - TANK_RADIUS c"
  shows "in_arena c (clampToArena tank c)"
  using assms by (simp add: clampToArena_def in_arena_def Let_def)

lemma applyEffect_in_arena:
  assumes "applyEffect c dt t a = Inr t1" "in_arena c t"
    "TANK_RADIUS c \<le> ARENA_WIDTH c - TANK_RADIUS c"
    "TANK_RADIUS c \<le> ARENA_HEIGHT c - TANK_RADIUS c"
  shows "in_arena c t1"
proof (cases a)
  case MoveForward
  with assms(1) obtain u where "t1 = clampToArena u c"
    by (auto simp: applyEffect_def Let_def split: option.splits)
  with clampToArena_in_arena [OF assms(3,4)] show ?thesis by simp
next
  case MoveBackward
  with assms(1) obtain u where "t1 = clampToArena u c"
    by (auto simp: applyEffect_def Let_def split: option.splits)
  with clampToArena_in_arena [OF assms(3,4)] show ?thesis by simp
qed (use assms(1,2) in \<open>auto simp: applyEffect_def in_arena_def split: option.splits\<close>)

lemma applyTank_in_arena:
  assumes "applyTank c now dt entries s t = Inr (t1, ds)" "in_arena c t"
    "TANK_RADIUS c \<le> ARENA_WIDTH c - TANK_RADIUS c"
    "TANK_RADIUS c \<le> ARENA_HEIGHT c - TANK_RADIUS c"
  shows "in_arena c t1"
proof (cases "hp t \<le> 0 \<or> activeAction t = None")
  case True
  with assms(1,2) show ?thesis by (simp add: applyTank_skip)
next
  case False
  then obtain a where a: "hp t > 0" "activeAction t = Some a" by auto
  from assms(1) obtain t0 where t0: "applyEffect c dt t a = Inr t0"
    unfolding applyTank_active [OF a] by (auto split: sum.splits)
  from applyEffect_in_arena [OF t0 assms(2-4)] have "in_arena c t0" .
  moreover from assms(1) have "tx t1 = tx t0 \<and> ty t1 = ty t0"
    unfolding applyTank_active [OF a] t0 by (cases a) (auto split: if_splits)
  ultimately show ?thesis by (simp add: in_arena_def)
qed

lemma step_all_in_arena:
  assumes st: "step w = Inr (w', evs)" and inv: "all_in_arena w"
    and room: "TANK_RADIUS (constants w) \<le> ARENA_WIDTH (constants w) - TANK_RADIUS (constants w)"
      "TANK_RADIUS (constants w) \<le> ARENA_HEIGHT (constants w) - TANK_RADIUS (constants w)"
  shows "all_in_arena w'"
proof -
  have "in_arena (constants w') t'" if mem: "(s, t') \<in> set (tanks w')" for s t'
  proof -
    from step_entries [OF st mem] obtain t t1 entries ds1 where
      e: "(s, t) \<in> set (tanks w)"
        "applyTank (constants w) (world_t w) (1 / TICK_RATE (constants w)) entries s t
           = Inr (t1, ds1)"
        "frame_rel (s, t1) (s, t')" by blast
    from inv e(1) have "in_arena (constants w) t" by (auto simp: all_in_arena_def list_all_iff)
    from applyTank_in_arena [OF e(2) this room] e(3) step_frame(2) [OF st]
    show ?thesis by (simp add: in_arena_def frame_rel_def)
  qed
  then show ?thesis by (auto simp: all_in_arena_def list_all_iff)
qed

lemma start_action_all_in_arena:
  assumes st: "start_action op w s = Inr (b, w')" and inv: "all_in_arena w"
  shows "all_in_arena w' \<and> constants w' = constants w"
proof -
  from start_action_cases [OF st] consider "w' = w"
    | tank D where "map_of (tanks w) s = Some tank"
       "w' = setTank s (tank\<lparr>busyUntil := js_add (Fin (world_t w)) D,
                                activeAction := Some (claimed_action op)\<rparr>) w"
    by blast
  then show ?thesis
  proof cases
    case 1
    with inv show ?thesis by simp
  next
    case 2
    from 2(1) have "(s, tank) \<in> set (tanks w)" by (rule map_of_SomeD)
    with inv show ?thesis
      unfolding 2(2) all_in_arena_def list_all_iff setTank_def
      by (auto simp: in_arena_def dest!: update_entries)
  qed
qed

lemma shoot_all_in_arena:
  assumes "shoot w s = Inr (b, w')" "all_in_arena w"
  shows "all_in_arena w' \<and> constants w' = constants w"
proof -
  from shoot_cases [OF assms(1)] consider "w' = w"
    | tank where "map_of (tanks w) s = Some tank"
        "world_t w' = world_t w" "constants w' = constants w"
        "tanks w' = AList.update s (tank\<lparr>activeProjectileId := Some (idCounter w)\<rparr>) (tanks w)"
    by blast
  then show ?thesis
  proof cases
    case 1
    with assms(2) show ?thesis by simp
  next
    case 2
    from 2(1) have "(s, tank) \<in> set (tanks w)" by (rule map_of_SomeD)
    with assms(2) show ?thesis
      unfolding all_in_arena_def list_all_iff 2(2,3,4)
      by (auto simp: in_arena_def dest!: update_entries)
  qed
qed

lemma exec_all_in_arena:
  assumes "exec cmd w = Inr w'" "all_in_arena w"
    "TANK_RADIUS (constants w) \<le> ARENA_WIDTH (constants w) - TANK_RADIUS (constants w)"
    "TANK_RADIUS (constants w) \<le> ARENA_HEIGHT (constants w) - TANK_RADIUS (constants w)"
  shows "all_in_arena w' \<and> constants w' = constants w"
proof (cases cmd)
  case Tick
  with assms(1) obtain evs where st: "step w = Inr (w', evs)" by (auto split: sum.splits)
  from step_all_in_arena [OF st assms(2-4)] step_frame(2) [OF st] show ?thesis by simp
next
  case (Start op s)
  with assms(1) obtain b where "start_action op w s = Inr (b, w')" by (auto split: sum.splits)
  from start_action_all_in_arena [OF this assms(2)] show ?thesis .
next
  case (Shoot s)
  with assms(1) obtain b where "shoot w s = Inr (b, w')" by (auto split: sum.splits)
  from shoot_all_in_arena [OF this assms(2)] show ?thesis .
qed

lemma run_all_in_arena:
  "run cmds w = Inr w' \<Longrightarrow> all_in_arena w \<Longrightarrow>
   TANK_RADIUS (constants w) \<le> ARENA_WIDTH (constants w) - TANK_RADIUS (constants w) \<Longrightarrow>
   TANK_RADIUS (constants w) \<le> ARENA_HEIGHT (constants w) - TANK_RADIUS (constants w) \<Longrightarrow>
     all_in_arena w' \<and> constants w' = constants w"
proof (induction cmds arbitrary: w)
  case Nil
  then show ?case by simp
next
  case (Cons cmd cmds)
  from Cons.prems(1) obtain w1 where
    e: "exec cmd w = Inr w1" and r: "run cmds w1 = Inr w'" by (auto split: sum.splits)
  from exec_all_in_arena [OF e Cons.prems(2-4)]
  have 1: "all_in_arena w1" "constants w1 = constants w" by simp_all
  from Cons.IH [OF r 1(1)] 1(2) Cons.prems(3,4) show ?case by simp
qed

lemma ring_in_arena:
  assumes "arena_fits c" "fresh_tank c tank"
  shows "in_arena c tank"
proof -
  define r where "r = min (ARENA_WIDTH c / 2) (ARENA_HEIGHT c / 2) * (55 / 100)"
  from assms(2) obtain a where
    p: "tx tank = ARENA_WIDTH c / 2 + cos a * r" "ty tank = ARENA_HEIGHT c / 2 + sin a * r"
    by (auto simp: fresh_tank_def r_def)
  from ring_radius_nonneg [OF assms(1)] have r: "0 \<le> r" by (simp only: r_def)
  from assms(1) have fit: "TANK_RADIUS c + r \<le> ARENA_WIDTH c / 2"
    "TANK_RADIUS c + r \<le> ARENA_HEIGHT c / 2" by (simp_all only: arena_fits_def r_def)
  have "\<bar>cos a\<bar> * r \<le> 1 * r" "\<bar>sin a\<bar> * r \<le> 1 * r"
    using r by (intro mult_right_mono; simp)+
  then have "\<bar>cos a * r\<bar> \<le> r" "\<bar>sin a * r\<bar> \<le> r"
    using r by (simp_all add: abs_mult)
  then have "- r \<le> cos a * r" "cos a * r \<le> r" "- r \<le> sin a * r" "sin a * r \<le> r"
    by linarith+
  with fit p show ?thesis
    unfolding in_arena_def by linarith
qed

lemma createWorld_all_in_arena:
  assumes "createWorld seed0 c players = Inr w" "arena_fits c"
  shows "all_in_arena w"
proof -
  from createWorld_result(2,5) [OF assms(1)] have
    "constants w = c" "\<forall>e \<in> set (tanks w). fresh_tank c (snd e)" by simp_all
  then have "in_arena (constants w) t" if "(s, t) \<in> set (tanks w)" for s t
    using that ring_in_arena [OF assms(2), of t] by auto
  then show ?thesis by (auto simp: all_in_arena_def list_all_iff)
qed

lemma arena_fits_CONSTANTS: "arena_fits CONSTANTS"
  by (simp add: arena_fits_def CONSTANTS_def)

section \<open>Ticks return\<close>

lemma applyEffect_returns:
  "TANK_TYPES c (tankType t) \<noteq> None \<Longrightarrow> \<exists>t1. applyEffect c dt t a = Inr t1"
  by (cases a) (auto simp: applyEffect_def Let_def)

lemma applyTank_returns:
  assumes "TANK_TYPES c (tankType t) \<noteq> None"
  shows "\<exists>t1 ds. applyTank c now dt entries s t = Inr (t1, ds)"
proof (cases "hp t \<le> 0 \<or> activeAction t = None")
  case True
  then show ?thesis by (simp add: applyTank_skip)
next
  case False
  then obtain a where a: "hp t > 0" "activeAction t = Some a" by auto
  from applyEffect_returns [OF assms] obtain t1 where "applyEffect c dt t a = Inr t1" by blast
  then show ?thesis unfolding applyTank_active [OF a] by simp
qed

lemma applyLoop_returns:
  "\<forall>e \<in> set todo. TANK_TYPES c (tankType (snd e)) \<noteq> None \<Longrightarrow>
     \<exists>tks ds. applyLoop c now dt done todo = Inr (tks, ds)"
proof (induction todo arbitrary: "done")
  case Nil
  then show ?case by simp
next
  case (Cons e todo)
  obtain s t where e: "e = (s, t)" by (cases e)
  from Cons.prems have "TANK_TYPES c (tankType t) \<noteq> None" by (simp add: e)
  from applyTank_returns [OF this] obtain t1 ds1 where
    one: "applyTank c now dt (done @ (s, t) # todo) s t = Inr (t1, ds1)" by blast
  from Cons.prems have "\<forall>e \<in> set todo. TANK_TYPES c (tankType (snd e)) \<noteq> None" by simp
  from Cons.IH [OF this] obtain tks ds where
    "applyLoop c now dt (done @ [(s, t1)]) todo = Inr (tks, ds)" by blast
  with one show ?case by (simp add: e)
qed

lemma step_returns:
  assumes "types_ok w"
  shows "\<exists>w' evs. step w = Inr (w', evs)"
proof -
  let ?c = "constants w" and ?dt = "1 / TICK_RATE (constants w)"
  from assms have "\<forall>e \<in> set (tanks w). TANK_TYPES ?c (tankType (snd e)) \<noteq> None"
    by (auto simp: types_ok_def list_all_iff)
  from applyLoop_returns [OF this] obtain tks1 ds where
    1: "applyLoop ?c (world_t w) ?dt [] (tanks w) = Inr (tks1, ds)" by blast
  obtain tks2 ps2 ev2 where
    2: "despawnLoop ?c (moveProjectiles ?dt (projectiles w)) tks1 = (tks2, ps2, ev2)"
    by (cases "despawnLoop ?c (moveProjectiles ?dt (projectiles w)) tks1")
  obtain tks3 ps3 ev3 where 3: "hitLoop ?c ps2 tks2 = (tks3, ps3, ev3)"
    by (cases "hitLoop ?c ps2 tks2")
  from 1 2 3 show ?thesis unfolding step_phases by blast
qed

lemma step_types_ok:
  assumes st: "step w = Inr (w', evs)" and ok: "types_ok w"
  shows "types_ok w'"
proof -
  have "TANK_TYPES (constants w') (tankType t') \<noteq> None" if mem: "(s, t') \<in> set (tanks w')" for s t'
  proof -
    from step_entries [OF st mem] obtain t t1 entries ds1 where
      e: "(s, t) \<in> set (tanks w)"
        "applyTank (constants w) (world_t w) (1 / TICK_RATE (constants w)) entries s t
           = Inr (t1, ds1)"
        "frame_rel (s, t1) (s, t')" by blast
    from ok e(1) have "TANK_TYPES (constants w) (tankType t) \<noteq> None"
      by (auto simp: types_ok_def list_all_iff)
    with applyTank_frame [OF e(2)] e(3) step_frame(2) [OF st] show ?thesis
      by (simp add: frame_rel_def)
  qed
  then show ?thesis by (auto simp: types_ok_def list_all_iff)
qed

lemma first_later_tick_exists:
  assumes "0 < dt"
  shows "\<exists>m. first_later_tick dt D m"
proof -
  let ?P = "\<lambda>m. 1 \<le> m \<and> real m * dt \<ge> D - EPSILON"
  from reals_Archimedean3 [OF assms] obtain n where n: "D - EPSILON < real n * dt" by blast
  have "real n * dt \<le> real (Suc n) * dt" using assms by (intro mult_right_mono) simp_all
  with n have "?P (Suc n)" by simp
  then have L: "?P (LEAST m. ?P m)" by (rule LeastI)
  have "real j * dt < D - EPSILON" if "1 \<le> j" "j < (LEAST m. ?P m)" for j
  proof -
    from that(2) have "\<not> ?P j" by (rule not_less_Least)
    with that(1) show ?thesis by simp
  qed
  with L show ?thesis unfolding first_later_tick_def by blast
qed

section \<open>The busy window of a timed action\<close>

lemma completes_in_iff:
  "completes_in s evs \<longleftrightarrow> (\<exists>actionType r. ActionComplete s actionType r \<in> set evs)"
proof
  assume "completes_in s evs"
  then obtain e where e: "e \<in> set evs"
    "case e of ActionComplete s' actionType r \<Rightarrow> s' = s | _ \<Rightarrow> False"
    unfolding completes_in_def list_ex_iff by blast
  from e(2) obtain actionType r where "e = ActionComplete s actionType r"
    by (cases e) auto
  with e(1) show "\<exists>actionType r. ActionComplete s actionType r \<in> set evs" by blast
next
  assume "\<exists>actionType r. ActionComplete s actionType r \<in> set evs"
  then show "completes_in s evs"
    unfolding completes_in_def list_ex_iff by force
qed

lemma first_later_tick_Suc:
  assumes "first_later_tick dt D (Suc (Suc k))"
  shows "first_later_tick dt (D - dt) (Suc k)" and "\<not> dt \<ge> D - EPSILON"
proof -
  from assms have 1: "real (Suc (Suc k)) * dt \<ge> D - EPSILON"
    and 2: "\<And>j. 1 \<le> j \<Longrightarrow> j < Suc (Suc k) \<Longrightarrow> real j * dt < D - EPSILON"
    by (auto simp: first_later_tick_def)
  from 2 [of 1] show "\<not> dt \<ge> D - EPSILON" by simp
  have "real (Suc k) * dt \<ge> D - dt - EPSILON" using 1 by (simp add: algebra_simps)
  moreover have "real j * dt < D - dt - EPSILON" if "1 \<le> j" "j < Suc k" for j
    using 2 [of "Suc j"] that by (simp add: algebra_simps)
  ultimately show "first_later_tick dt (D - dt) (Suc k)"
    by (simp add: first_later_tick_def)
qed

lemma first_later_tick_one: "first_later_tick dt D (Suc 0) \<Longrightarrow> dt \<ge> D - EPSILON"
  by (simp add: first_later_tick_def)

lemma normalizeDeg_plus_inner: "normalizeDeg (normalizeDeg u + v) = normalizeDeg (u + v)"
  using normalizeDeg_minus_inner [of u "- v"] by simp

lemma applyEffect_heading:
  assumes "applyEffect c dt t a = Inr t1" "TANK_TYPES c (tankType t) = Some stats"
  shows "headingDeg t1 = (if a = TurnLeft \<or> a = TurnRight
            then normalizeDeg (headingDeg t + turn_sign a * (turnRate stats * dt))
            else headingDeg t)"
  using assms
  by (cases a) (auto simp: applyEffect_def clampToArena_def Let_def)

lemma busy_window:
  assumes "distinct (map fst (tanks w))" "map_of (tanks w) s = Some t"
    "activeAction t = Some a" "busyUntil t = Fin (world_t w + D)"
    "alive_for m w s" "first_later_tick (1 / TICK_RATE (constants w)) D m" "m \<le> fuel"
    "types_ok w"
  shows "completion_tick fuel w s = Some m
     \<and> (\<exists>w' evss t'. run_ticks m w = Inr (w', evss) \<and> length evss = m
           \<and> (\<exists>r. ActionComplete s (action_type a) r \<in> set (last evss))
           \<and> map_of (tanks w') s = Some t' \<and> activeAction t' = None
           \<and> busyUntil t' = busyUntil t
           \<and> world_t w' = world_t w + real m * (1 / TICK_RATE (constants w))
           \<and> (\<forall>stats. TANK_TYPES (constants w) (tankType t) = Some stats
                  \<and> (a = TurnLeft \<or> a = TurnRight) \<longrightarrow>
                headingDeg t' = normalizeDeg (headingDeg t
                   + turn_sign a * (real m * (turnRate stats * (1 / TICK_RATE (constants w)))))))"
  using assms
proof (induction m arbitrary: w t D fuel)
  case 0
  then show ?case by (simp add: first_later_tick_def)
next
  case (Suc m)
  let ?c = "constants w" and ?dt = "1 / TICK_RATE (constants w)"
  from step_returns [OF Suc.prems(8)] obtain w1 evs where st: "step w = Inr (w1, evs)"
    by blast
  from Suc.prems(5,2) st have alive: "hp t > 0" and al1: "alive_for m w1 s" by simp_all
  note ok1 = step_types_ok [OF st Suc.prems(8)]
  from step_tank_active [OF st Suc.prems(1,2) alive Suc.prems(3)] obtain t0 t1 where
    t1: "applyEffect ?c ?dt t a = Inr t0" "map_of (tanks w1) s = Some t1"
      "headingDeg t1 = headingDeg t0" "busyUntil t1 = busyUntil t" "tankType t1 = tankType t"
      "if js_ge (Fin (world_t w + ?dt)) (js_sub (busyUntil t) (Fin EPSILON))
         then activeAction t1 = None \<and> (\<exists>r. ActionComplete s (action_type a) r \<in> set evs)
         else activeAction t1 = Some a
              \<and> (\<forall>actionType r. ActionComplete s actionType r \<notin> set evs)"
    by blast
  note fr = step_frame [OF st]
  note hd = applyEffect_heading [OF t1(1)]
  obtain fuel' where fuel: "fuel = Suc fuel'" "m \<le> fuel'"
    using Suc.prems(7) by (cases fuel) auto
  show ?case
  proof (cases m)
    case 0
    from Suc.prems(6) have "?dt \<ge> D - EPSILON" unfolding 0 by (rule first_later_tick_one)
    with Suc.prems(4) have fin: "js_ge (Fin (world_t w + ?dt)) (js_sub (busyUntil t) (Fin EPSILON))" by simp
    with t1(6) have c: "activeAction t1 = None" "\<exists>r. ActionComplete s (action_type a) r \<in> set evs"
      by simp_all
    then have "completes_in s evs" unfolding completes_in_iff by blast
    with st have "completion_tick fuel w s = Some 1" by (simp add: fuel)
    moreover have "run_ticks (Suc 0) w = Inr (w1, [evs])" using st by simp
    ultimately show ?thesis
      using c t1(2,3,4) hd fr(1) unfolding 0 by (auto simp: algebra_simps)
  next
    case (Suc k)
    from first_later_tick_Suc [OF Suc.prems(6) [unfolded Suc]]
    have flt: "first_later_tick ?dt (D - ?dt) (Suc k)" and nd: "\<not> ?dt \<ge> D - EPSILON"
      by simp_all
    from nd Suc.prems(4) have "\<not> js_ge (Fin (world_t w + ?dt)) (js_sub (busyUntil t) (Fin EPSILON))" by simp
    with t1(6) have c: "activeAction t1 = Some a"
      "\<forall>actionType r. ActionComplete s actionType r \<notin> set evs" by simp_all
    then have nc: "\<not> completes_in s evs" unfolding completes_in_iff by blast
    have d1: "distinct (map fst (tanks w1))" using fr(4) Suc.prems(1) by simp
    have bu: "busyUntil t1 = Fin (world_t w1 + (D - ?dt))"
      using t1(4) Suc.prems(4) fr(1) by simp
    from flt fr(2) have flt1: "first_later_tick (1 / TICK_RATE (constants w1)) (D - ?dt) m"
      unfolding Suc by simp
    from Suc.IH [OF d1 t1(2) c(1) bu al1 flt1 fuel(2) ok1]
    obtain w' evss t' where ih:
      "completion_tick fuel' w1 s = Some m"
      "run_ticks m w1 = Inr (w', evss)" "length evss = m"
      "\<exists>r. ActionComplete s (action_type a) r \<in> set (last evss)"
      "map_of (tanks w') s = Some t'" "activeAction t' = None"
      "busyUntil t' = busyUntil t1"
      "world_t w' = world_t w1 + real m * (1 / TICK_RATE (constants w1))"
      "\<forall>stats. TANK_TYPES (constants w1) (tankType t1) = Some stats
                  \<and> (a = TurnLeft \<or> a = TurnRight) \<longrightarrow>
                headingDeg t' = normalizeDeg (headingDeg t1
                   + turn_sign a * (real m * (turnRate stats * (1 / TICK_RATE (constants w1)))))"
      by blast
    have 1: "completion_tick fuel w s = Some (Suc m)"
      using st nc ih(1) by (simp add: fuel)
    have 2: "run_ticks (Suc m) w = Inr (w', evs # evss)" using st ih(2) by simp
    have 3: "last (evs # evss) = last evss" using ih(3) Suc by (cases evss) auto
    have 4: "world_t w' = world_t w + real (Suc m) * ?dt"
      using ih(8) fr(1,2) by (simp add: algebra_simps add_divide_distrib)
    have 5: "\<forall>stats. TANK_TYPES (constants w) (tankType t) = Some stats
                  \<and> (a = TurnLeft \<or> a = TurnRight) \<longrightarrow>
                headingDeg t' = normalizeDeg (headingDeg t
                   + turn_sign a * (real (Suc m) * (turnRate stats * ?dt)))"
    proof (intro allI impI)
      fix stats
      assume h: "TANK_TYPES (constants w) (tankType t) = Some stats
                  \<and> (a = TurnLeft \<or> a = TurnRight)"
      with ih(9) hd [of stats] t1(3,5) fr(2)
      have "headingDeg t' = normalizeDeg (normalizeDeg (headingDeg t
                + turn_sign a * (turnRate stats * ?dt))
              + turn_sign a * (real m * (turnRate stats * ?dt)))" by simp
      also have "\<dots> = normalizeDeg (headingDeg t + turn_sign a * (turnRate stats * ?dt)
              + turn_sign a * (real m * (turnRate stats * ?dt)))"
        by (rule normalizeDeg_plus_inner)
      also have "headingDeg t + turn_sign a * (turnRate stats * ?dt)
              + turn_sign a * (real m * (turnRate stats * ?dt))
           = headingDeg t + turn_sign a * (real (Suc m) * (turnRate stats * ?dt))"
        by (simp add: algebra_simps add_divide_distrib)
      finally show "headingDeg t' = normalizeDeg (headingDeg t
                   + turn_sign a * (real (Suc m) * (turnRate stats * ?dt)))" .
    qed
    from 1 2 3 4 5 ih(3,4,5,6,7) t1(4) show ?thesis
      by (intro conjI exI [of _ w'] exI [of _ "evs # evss"] exI [of _ t']) simp_all
  qed
qed

lemma completion_tick_run:
  "completion_tick fuel w s = Some m \<Longrightarrow> run_ticks m w = Inr (w', evss) \<Longrightarrow>
     1 \<le> m \<and> completes_in s (evss ! (m - 1)) \<and> (\<forall>j < m - 1. \<not> completes_in s (evss ! j))"
proof (induction fuel arbitrary: w m evss)
  case 0
  then show ?case by simp
next
  case (Suc fuel)
  from Suc.prems(1) obtain w1 evs where st: "step w = Inr (w1, evs)"
    by (auto split: sum.splits)
  show ?case
  proof (cases "completes_in s evs")
    case True
    with Suc.prems(1) st have m: "m = 1" by simp
    with Suc.prems(2) st have "evss = [evs]" by auto
    with True m show ?thesis by simp
  next
    case False
    with Suc.prems(1) st obtain m' where
      m': "completion_tick fuel w1 s = Some m'" "m = Suc m'" by auto
    from Suc.prems(2) st m'(2) obtain evss' where
      r: "run_ticks m' w1 = Inr (w', evss')" "evss = evs # evss'"
      by (auto split: sum.splits)
    from Suc.IH [OF m'(1) r(1)] have ih: "1 \<le> m'" "completes_in s (evss' ! (m' - 1))"
      "\<forall>j < m' - 1. \<not> completes_in s (evss' ! j)" by simp_all
    have "\<not> completes_in s (evss ! j)" if "j < m - 1" for j
    proof (cases j)
      case 0
      with False r(2) show ?thesis by simp
    next
      case (Suc j')
      with that m'(2) ih(1) have "j' < m' - 1" by simp
      with ih(3) Suc r(2) show ?thesis by simp
    qed
    moreover from ih(1,2) m'(2) r(2) have "completes_in s (evss ! (m - 1))"
      by (cases m') simp_all
    ultimately show ?thesis using m'(2) by simp
  qed
qed

lemma first_later_tick_exact:
  assumes "1 \<le> k" "EPSILON < dt"
  shows "first_later_tick dt (real k * dt) k"
proof -
  have "real j * dt < real k * dt - EPSILON" if "1 \<le> j" "j < k" for j
  proof -
    from that have "real j + 1 \<le> real k" by simp
    then have "(real j + 1) * dt \<le> real k * dt"
      using assms(2) by (intro mult_right_mono) (simp_all add: EPSILON_def)
    then show ?thesis using assms(2) by (simp add: algebra_simps)
  qed
  then show ?thesis using assms by (simp add: first_later_tick_def EPSILON_def)
qed

lemma first_later_tick_unique:
  assumes "first_later_tick dt D m" "first_later_tick dt D k"
  shows "m = k"
proof (rule ccontr)
  assume "m \<noteq> k"
  then consider "m < k" | "k < m" by linarith
  then show False
  proof cases
    case 1
    with assms have "real m * dt < D - EPSILON" "real m * dt \<ge> D - EPSILON"
      by (auto simp: first_later_tick_def)
    then show False by simp
  next
    case 2
    with assms have "real k * dt < D - EPSILON" "real k * dt \<ge> D - EPSILON"
      by (auto simp: first_later_tick_def)
    then show False by simp
  qed
qed

lemma turning_world_alive: "alive_for (Suc (Suc 0)) turning_world ''p1''"
  by (simp add: turning_world_def step_def applyActiveActions_def applyTank_def applyEffect_def
      EPSILON_def moveProjectiles_def matchEnd_def Let_def
      scenario_world_def scenario_tank_def CONSTANTS_def)

lemma setTank_keys:
  "map_of (tanks w) s = Some t \<Longrightarrow> map fst (tanks (setTank s t' w)) = map fst (tanks w)"
proof -
  assume "map_of (tanks w) s = Some t"
  then have "s \<in> fst ` set (tanks w)" by (auto dest: map_of_SomeD intro: rev_image_eqI)
  then show ?thesis by (simp add: setTank_def update_keys)
qed

lemma first_later_tick_zero: "0 < dt \<Longrightarrow> first_later_tick dt 0 (Suc 0)"
  by (simp add: first_later_tick_def EPSILON_def)

lemma js_abs_neg: "js_abs (js_neg d) = js_abs d"
  by (cases d) simp_all

lemma turn_negated:
  "turnLeft w s (Some (js_neg d)) = turnLeft w s (Some d)"
  "turnRight w s (Some (js_neg d)) = turnRight w s (Some d)"
  by (simp_all add: turnLeft_def turnRight_def js_abs_neg split: option.splits)

lemma spec_normalize_floor: "spec_normalize u = u - 360 * of_int \<lfloor>u / 360\<rfloor>"
proof -
  have e: "(u - 360 * of_int \<lfloor>u / 360\<rfloor> + 360) / 360 = u / 360 + of_int (1 - \<lfloor>u / 360\<rfloor>)"
    by (simp add: field_simps)
  have "\<lfloor>(u - 360 * of_int \<lfloor>u / 360\<rfloor> + 360) / 360\<rfloor> = \<lfloor>u / 360\<rfloor> + (1 - \<lfloor>u / 360\<rfloor>)"
    by (simp only: e floor_add_int)
  then show ?thesis by (simp add: spec_normalize_def spec_mod_def)
qed

lemma isInScanArc_unfold:
  "isInScanArc s tg a b r =
     (if (tx tg - tx s) * (tx tg - tx s) + (ty tg - ty s) * (ty tg - ty s) > r * r then False
      else if (tx tg - tx s) * (tx tg - tx s) + (ty tg - ty s) * (ty tg - ty s) = 0 then True
      else if normalizeDeg a = normalizeDeg b then True
      else normalizeDeg (normalizeDeg (atan2 (ty tg - ty s) (tx tg - tx s) * (180 / pi) - headingDeg s)
               - normalizeDeg a)
             \<le> normalizeDeg (normalizeDeg b - normalizeDeg a))"
  unfolding isInScanArc_def Let_def
    normalizeDeg_minus_inner [of "atan2 (ty tg - ty s) (tx tg - tx s) * (180 / pi)" "headingDeg s"]
  by simp

lemma scan_behind:
  assumes "headingDeg s = 0" "ty tg = ty s" "tx tg < tx s" "tx s - tx tg \<le> r"
  shows "isInScanArc s tg 170 (- 170) r \<and> \<not> isInScanArc s tg (- 30) 30 r"
proof -
  define d where "d = tx s - tx tg"
  have d: "0 < d" "d \<le> r" "tx tg - tx s = - d" using assms by (simp_all add: d_def)
  have "d * d \<le> r * r" using d by (intro mult_mono) simp_all
  then have in_range: "\<not> (d * d > r * r)" by simp
  have nz: "d * d \<noteq> 0" using d by simp
  have at: "atan2 0 (- d) * 180 / pi = 180" using d by (simp add: atan2_def)
  have n1: "normalizeDeg 170 = 170" "normalizeDeg (- 170) = 190" "normalizeDeg (- 30) = 330"
    "normalizeDeg 30 = 30" "normalizeDeg 180 = 180" "normalizeDeg 10 = 10" "normalizeDeg 20 = 20"
    "normalizeDeg (- 150) = 210" "normalizeDeg (- 300) = 60"
    by (simp_all add: normalizeDeg_floor)
  show ?thesis
    using in_range nz by (simp add: isInScanArc_unfold assms(1,2) d(3) at n1)
qed

section \<open>The scan arc test\<close>

text \<open>
  Claim C3. \<open>isInScanArc\<close> is false when the squared distance exceeds the squared range;
  otherwise true when the positions coincide; otherwise true when the two arc angles
  normalise to the same value; otherwise true exactly when
  \<open>normalize (relBearing - a) \<le> normalize (b - a)\<close>, with
  \<open>relBearing = normalize (degrees (atan2 dy dx) - headingDeg)\<close>; normalisation is
  \<open>((x mod 360) + 360) mod 360\<close>. A target due behind a scanner of heading \<open>0\<close>, within
  range, is inside the arc of \<open>scan(170, -170)\<close> and outside the arc of \<open>scan(-30, 30)\<close>.
\<close>

theorem isInScanArc_characterisation:
  "(isInScanArc scanner target aDeg bDeg r =
     (if (tx target - tx scanner) * (tx target - tx scanner)
           + (ty target - ty scanner) * (ty target - ty scanner) > r * r then False
      else if (tx target - tx scanner) * (tx target - tx scanner)
           + (ty target - ty scanner) * (ty target - ty scanner) = 0 then True
      else if normalizeDeg aDeg = normalizeDeg bDeg then True
      else normalizeDeg
             (normalizeDeg (atan2 (ty target - ty scanner) (tx target - tx scanner) * (180 / pi)
                - headingDeg scanner) - normalizeDeg aDeg)
           \<le> normalizeDeg (normalizeDeg bDeg - normalizeDeg aDeg)))
   \<and> normalizeDeg u = spec_normalize u
   \<and> (headingDeg scanner = 0 \<and> ty target = ty scanner \<and> tx target < tx scanner
        \<and> tx scanner - tx target \<le> r
      \<longrightarrow> isInScanArc scanner target 170 (- 170) r
          \<and> \<not> isInScanArc scanner target (- 30) 30 r)"
  using isInScanArc_unfold [of scanner target aDeg bDeg r] scan_behind [of scanner target r]
  by (simp only: normalizeDeg_floor spec_normalize_floor) blast

theorem isInScanArc_characterisation_witness:
  "isInScanArc (scenario_tank ''p1'' ''light'' 100 100 0) (scenario_tank ''p2'' ''light'' 0 100 0)
     170 (- 170) 700
   \<and> \<not> isInScanArc (scenario_tank ''p1'' ''light'' 100 100 0)
         (scenario_tank ''p2'' ''light'' 0 100 0) (- 30) 30 700"
proof -
  let ?S = "scenario_tank ''p1'' ''light'' 100 100 0"
  let ?T = "scenario_tank ''p2'' ''light'' 0 100 0"
  have h: "headingDeg ?S = 0 \<and> ty ?T = ty ?S \<and> tx ?T < tx ?S \<and> tx ?S - tx ?T \<le> 700"
    by (simp add: scenario_tank_def)
  from isInScanArc_characterisation [of ?S ?T 170 "- 170" 700 0] h show ?thesis
    by blast
qed

text \<open>
  Claim C4. Each starter (\<open>turnLeft\<close>, \<open>turnRight\<close>, \<open>moveForward\<close>, \<open>moveBackward\<close>, \<open>scan\<close>,
  reached through \<open>start_action\<close>) returns true exactly when the tank is idle,
  \<open>world.t \<ge> busyUntil - 10\<^sup>-\<^sup>9\<close>. When it returns true the tank under the slot has
  \<open>busyUntil = world.t + duration\<close> and the operation's \<open>activeAction\<close>, with
  \<open>duration = |degrees| / turnRate\<close> for a turn given its degrees and \<open>ACTION_DURATION\<close>
  otherwise, and nothing else in the world changes; when it returns false the world is
  unchanged. The tank is one whose type has a row in \<open>TANK_TYPES\<close>. The comparison, the
  sum and the quotient are those of the program, for every \<open>busyUntil\<close> and every \<open>degrees\<close>
  argument, the special values included; for a \<open>busyUntil\<close> \<open>b\<close> and a \<open>degrees\<close> \<open>d\<close> that are
  finite numbers and a non-zero turn rate they are \<open>world.t \<ge> b - 10\<^sup>-\<^sup>9\<close> and
  \<open>world.t + |d| / turnRate\<close> on the reals.
\<close>

theorem starters_accept_iff_idle:
  assumes "map_of (tanks w) s = Some tank"
    and "TANK_TYPES (constants w) (tankType tank) = Some stats"
  shows "(js_ge (Fin (world_t w)) (js_sub (busyUntil tank) (Fin (1 / 1000000000))) \<longrightarrow>
            (\<exists>w'. start_action op w s = Inr (True, w')
               \<and> map_of (tanks w') s =
                   Some (tank\<lparr>busyUntil :=
                                js_add (Fin (world_t w)) (claimed_duration (constants w) stats op),
                              activeAction := Some (claimed_action op)\<rparr>)
               \<and> (\<forall>s'. s' \<noteq> s \<longrightarrow> map_of (tanks w') s' = map_of (tanks w) s')
               \<and> w' = w\<lparr>tanks := tanks w'\<rparr>))
       \<and> (\<not> js_ge (Fin (world_t w)) (js_sub (busyUntil tank) (Fin (1 / 1000000000))) \<longrightarrow>
            start_action op w s = Inr (False, w))
       \<and> (\<forall>b. busyUntil tank = Fin b \<longrightarrow>
              js_ge (Fin (world_t w)) (js_sub (busyUntil tank) (Fin (1 / 1000000000)))
                = (world_t w \<ge> b - 1 / 1000000000))
       \<and> (\<forall>d. turnRate stats \<noteq> 0 \<and> (op = OpTurnLeft (Some (Fin d)) \<or> op = OpTurnRight (Some (Fin d)))
              \<longrightarrow> js_add (Fin (world_t w)) (claimed_duration (constants w) stats op)
                    = Fin (world_t w + \<bar>d\<bar> / turnRate stats))
       \<and> (op \<in> {OpTurnLeft None, OpTurnRight None, OpMoveForward, OpMoveBackward}
              \<or> (\<exists>aDeg bDeg. op = OpScan aDeg bDeg)
              \<longrightarrow> js_add (Fin (world_t w)) (claimed_duration (constants w) stats op)
                    = Fin (world_t w + ACTION_DURATION (constants w)))"
proof -
  have 1: "js_ge (Fin (world_t w)) (js_sub (busyUntil tank) (Fin (1 / 1000000000))) \<longrightarrow>
            (\<exists>w'. start_action op w s = Inr (True, w')
               \<and> map_of (tanks w') s =
                   Some (tank\<lparr>busyUntil :=
                                js_add (Fin (world_t w)) (claimed_duration (constants w) stats op),
                              activeAction := Some (claimed_action op)\<rparr>)
               \<and> (\<forall>s'. s' \<noteq> s \<longrightarrow> map_of (tanks w') s' = map_of (tanks w) s')
               \<and> w' = w\<lparr>tanks := tanks w'\<rparr>)"
    unfolding start_action_result [OF assms(1,2)]
    by (simp add: map_of_setTank) (simp add: setTank_def)
  have 2: "\<not> js_ge (Fin (world_t w)) (js_sub (busyUntil tank) (Fin (1 / 1000000000))) \<longrightarrow>
            start_action op w s = Inr (False, w)"
    unfolding start_action_result [OF assms(1,2)] by simp
  have 3: "\<forall>b. busyUntil tank = Fin b \<longrightarrow>
              js_ge (Fin (world_t w)) (js_sub (busyUntil tank) (Fin (1 / 1000000000)))
                = (world_t w \<ge> b - 1 / 1000000000)"
    by simp
  have 4: "\<forall>d. turnRate stats \<noteq> 0 \<and> (op = OpTurnLeft (Some (Fin d)) \<or> op = OpTurnRight (Some (Fin d)))
              \<longrightarrow> js_add (Fin (world_t w)) (claimed_duration (constants w) stats op)
                    = Fin (world_t w + \<bar>d\<bar> / turnRate stats)"
    by (auto simp: claimed_duration_def)
  have 5: "op \<in> {OpTurnLeft None, OpTurnRight None, OpMoveForward, OpMoveBackward}
              \<or> (\<exists>aDeg bDeg. op = OpScan aDeg bDeg)
              \<longrightarrow> js_add (Fin (world_t w)) (claimed_duration (constants w) stats op)
                    = Fin (world_t w + ACTION_DURATION (constants w))"
    by (auto simp: claimed_duration_def)
  from 1 2 3 4 5 show ?thesis by blast
qed

theorem starters_accept_iff_idle_witness:
  "(\<exists>w'. start_action (OpTurnLeft (Some (Fin 90)))
            (scenario_world [(''p1'', scenario_tank ''p1'' ''light'' 100 100 0)]) ''p1''
          = Inr (True, w')
        \<and> map_of (tanks w') ''p1'' =
            Some ((scenario_tank ''p1'' ''light'' 100 100 0)
                    \<lparr>busyUntil := Fin (3 / 4), activeAction := Some TurnLeft\<rparr>))
   \<and> start_action OpMoveForward
        (scenario_world [(''p1'', (scenario_tank ''p1'' ''light'' 100 100 0)\<lparr>busyUntil := Fin 1\<rparr>)]) ''p1''
      = Inr (False,
          scenario_world [(''p1'', (scenario_tank ''p1'' ''light'' 100 100 0)\<lparr>busyUntil := Fin 1\<rparr>)])"
proof -
  let ?T = "scenario_tank ''p1'' ''light'' 100 100 0"
  let ?W = "scenario_world [(''p1'', ?T)]"
  let ?T2 = "?T\<lparr>busyUntil := Fin 1\<rparr>"
  let ?W2 = "scenario_world [(''p1'', ?T2)]"
  let ?st = "\<lparr>stats_hp = 60, moveSpeed = 160, turnRate = 120\<rparr>"
  have h1: "map_of (tanks ?W) ''p1'' = Some ?T" by (simp add: scenario_world_def)
  have h2: "TANK_TYPES (constants ?W) (tankType ?T) = Some ?st"
    by (simp add: scenario_world_def scenario_tank_def CONSTANTS_def)
  have idle: "js_ge (Fin (world_t ?W)) (js_sub (busyUntil ?T) (Fin (1 / 1000000000)))"
    by (simp add: scenario_world_def scenario_tank_def)
  have k1: "map_of (tanks ?W2) ''p1'' = Some ?T2" by (simp add: scenario_world_def)
  have k2: "TANK_TYPES (constants ?W2) (tankType ?T2) = Some ?st"
    by (simp add: scenario_world_def scenario_tank_def CONSTANTS_def)
  have busy: "\<not> js_ge (Fin (world_t ?W2)) (js_sub (busyUntil ?T2) (Fin (1 / 1000000000)))"
    by (simp add: scenario_world_def scenario_tank_def)
  have d: "js_add (Fin (world_t ?W))
             (claimed_duration (constants ?W) ?st (OpTurnLeft (Some (Fin 90)))) = Fin (3 / 4)"
    by (simp add: claimed_duration_def scenario_world_def)
  from starters_accept_iff_idle [OF h1 h2, of "OpTurnLeft (Some (Fin 90))"] idle d
  have "\<exists>w'. start_action (OpTurnLeft (Some (Fin 90))) ?W ''p1'' = Inr (True, w')
        \<and> map_of (tanks w') ''p1'' = Some (?T\<lparr>busyUntil := Fin (3 / 4), activeAction := Some TurnLeft\<rparr>)"
    by auto
  moreover from starters_accept_iff_idle [OF k1 k2, of OpMoveForward] busy
  have "start_action OpMoveForward ?W2 ''p1'' = Inr (False, ?W2)" by blast
  ultimately show ?thesis by blast
qed

text \<open>
  Claim C7, evaluated on the code. The runtime has registered the watchdog's reset as the
  action-started hook; a light tank that is idle then starts \<open>moveForward\<close> through the
  server Tank API. The operation is accepted and the watchdog has not been reset: the
  server's \<open>timedAction\<close> never calls the hook. The same call through the local Tank API
  resets the watchdog once.
\<close>

theorem server_timedAction_skips_hook:
  "(\<exists>w' api'.
      server_timedAction OpMoveForward
        (scenario_world [(''p1'', scenario_tank ''p1'' ''light'' 100 100 0)]) ''p1''
        (register_hook \<lparr>pendingResolve = False, onActionStart = None\<rparr>) \<lparr>resets = 0\<rparr>
      = Inr (True, w', api', \<lparr>resets = 0\<rparr>))
   \<and> (\<exists>w' api'.
      local_timedAction OpMoveForward
        (scenario_world [(''p1'', scenario_tank ''p1'' ''light'' 100 100 0)]) ''p1''
        (register_hook \<lparr>pendingResolve = False, onActionStart = None\<rparr>) \<lparr>resets = 0\<rparr>
      = Inr (True, w', api', \<lparr>resets = 1\<rparr>))"
  by (simp add: server_timedAction_def local_timedAction_def register_hook_def
      watchdog_reset_def moveForward_def scenario_world_def scenario_tank_def isIdle_def)

text \<open>
  Claim C5. For the tank under the slot: when its \<open>activeProjectileId\<close> is non-null, \<open>shoot\<close>
  returns false and the world is unchanged; when it is null, \<open>shoot\<close> returns true, takes
  the next id from the counter (an id no projectile of the world has, the counter being
  above every id in the world), inserts a projectile at offset
  \<open>TANK_RADIUS + PROJECTILE_RADIUS + 1\<close> from the tank centre along the heading, with the
  velocity \<open>PROJECTILE_SPEED\<close> along the heading, and sets \<open>activeProjectileId\<close> to the new
  id. When a later tick removes that projectile, by despawn or by hit, the tank's
  \<open>activeProjectileId\<close> is null after the tick and \<open>shoot\<close> returns true again.
\<close>

theorem shoot_one_projectile_rule:
  assumes "map_of (tanks w) s = Some t"
  shows "(activeProjectileId t \<noteq> None \<longrightarrow> shoot w s = Inr (False, w))
    \<and> (activeProjectileId t = None \<longrightarrow>
         (\<exists>w' p. shoot w s = Inr (True, w')
            \<and> pid p = idCounter w \<and> idCounter w' = idCounter w + 1 \<and> owner p = s
            \<and> px p = tx t + cos (headingDeg t * (pi / 180))
                        * (TANK_RADIUS (constants w) + PROJECTILE_RADIUS (constants w) + 1)
            \<and> py p = ty t + sin (headingDeg t * (pi / 180))
                        * (TANK_RADIUS (constants w) + PROJECTILE_RADIUS (constants w) + 1)
            \<and> vx p = cos (headingDeg t * (pi / 180)) * PROJECTILE_SPEED (constants w)
            \<and> vy p = sin (headingDeg t * (pi / 180)) * PROJECTILE_SPEED (constants w)
            \<and> (vx p)\<^sup>2 + (vy p)\<^sup>2 = (PROJECTILE_SPEED (constants w))\<^sup>2
            \<and> projectiles w' = map_set p (projectiles w) \<and> p \<in> set (projectiles w')
            \<and> (ids_below w \<longrightarrow> pid p \<notin> pid ` set (projectiles w)
                  \<and> projectiles w' = projectiles w @ [p] \<and> ids_below w')
            \<and> map_of (tanks w') s = Some (t\<lparr>activeProjectileId := Some (pid p)\<rparr>)
            \<and> (\<forall>s'. s' \<noteq> s \<longrightarrow> map_of (tanks w') s' = map_of (tanks w) s')
            \<and> world_t w' = world_t w \<and> constants w' = constants w))
    \<and> (\<forall>i w1 evs.
          activeProjectileId t = Some i \<and> step w = Inr (w1, evs)
          \<and> (Despawn i s ''oob'' \<in> set evs \<or> (\<exists>hitSlot dmg. Hit i s hitSlot dmg \<in> set evs))
          \<longrightarrow> (\<exists>t1 w2. map_of (tanks w1) s = Some t1 \<and> activeProjectileId t1 = None
                  \<and> shoot w1 s = Inr (True, w2)))"
proof (intro conjI impI allI)
  assume "activeProjectileId t \<noteq> None"
  with shoot_result [OF assms] show "shoot w s = Inr (False, w)" by simp
next
  assume "activeProjectileId t = None"
  from shoot_accepted [OF assms this]
  show "\<exists>w' p. shoot w s = Inr (True, w')
            \<and> pid p = idCounter w \<and> idCounter w' = idCounter w + 1 \<and> owner p = s
            \<and> px p = tx t + cos (headingDeg t * (pi / 180))
                        * (TANK_RADIUS (constants w) + PROJECTILE_RADIUS (constants w) + 1)
            \<and> py p = ty t + sin (headingDeg t * (pi / 180))
                        * (TANK_RADIUS (constants w) + PROJECTILE_RADIUS (constants w) + 1)
            \<and> vx p = cos (headingDeg t * (pi / 180)) * PROJECTILE_SPEED (constants w)
            \<and> vy p = sin (headingDeg t * (pi / 180)) * PROJECTILE_SPEED (constants w)
            \<and> (vx p)\<^sup>2 + (vy p)\<^sup>2 = (PROJECTILE_SPEED (constants w))\<^sup>2
            \<and> projectiles w' = map_set p (projectiles w) \<and> p \<in> set (projectiles w')
            \<and> (ids_below w \<longrightarrow> pid p \<notin> pid ` set (projectiles w)
                  \<and> projectiles w' = projectiles w @ [p] \<and> ids_below w')
            \<and> map_of (tanks w') s = Some (t\<lparr>activeProjectileId := Some (pid p)\<rparr>)
            \<and> (\<forall>s'. s' \<noteq> s \<longrightarrow> map_of (tanks w') s' = map_of (tanks w) s')
            \<and> world_t w' = world_t w \<and> constants w' = constants w" .
next
  fix i w1 evs
  assume a: "activeProjectileId t = Some i \<and> step w = Inr (w1, evs)
          \<and> (Despawn i s ''oob'' \<in> set evs \<or> (\<exists>hitSlot dmg. Hit i s hitSlot dmg \<in> set evs))"
  then have "\<exists>t1. map_of (tanks w1) s = Some t1 \<and> activeProjectileId t1 = None"
    using step_clears [OF _ assms, of w1 evs i "''oob''"] by blast
  then obtain t1 where t1: "map_of (tanks w1) s = Some t1" "activeProjectileId t1 = None"
    by blast
  from shoot_accepted [OF t1] obtain w2 where "shoot w1 s = Inr (True, w2)" by blast
  with t1 show "\<exists>t1 w2. map_of (tanks w1) s = Some t1 \<and> activeProjectileId t1 = None
                  \<and> shoot w1 s = Inr (True, w2)" by blast
qed

theorem shoot_one_projectile_rule_witness:
  "(\<exists>w' p. shoot (scenario_world [(''p1'', scenario_tank ''p1'' ''light'' 100 100 0)]) ''p1''
             = Inr (True, w')
        \<and> pid p = 0 \<and> owner p = ''p1'' \<and> px p = 123 \<and> py p = 100 \<and> vx p = 420 \<and> vy p = 0
        \<and> projectiles w' = [p]
        \<and> map_of (tanks w') ''p1'' =
            Some ((scenario_tank ''p1'' ''light'' 100 100 0)\<lparr>activeProjectileId := Some 0\<rparr>))
   \<and> shoot leaving_world ''p1'' = Inr (False, leaving_world)
   \<and> (\<exists>w1 evs t1 w2. step leaving_world = Inr (w1, evs)
        \<and> Despawn 0 ''p1'' ''oob'' \<in> set evs
        \<and> map_of (tanks w1) ''p1'' = Some t1 \<and> activeProjectileId t1 = None
        \<and> shoot w1 ''p1'' = Inr (True, w2))"
proof -
  let ?T = "scenario_tank ''p1'' ''light'' 100 100 0"
  let ?W = "scenario_world [(''p1'', ?T)]"
  let ?TL = "?T\<lparr>activeProjectileId := Some 0\<rparr>"
  have h0: "map_of (tanks ?W) ''p1'' = Some ?T" by (simp add: scenario_world_def)
  have free: "activeProjectileId ?T = None" by (simp add: scenario_tank_def)
  have below: "ids_below ?W" by (simp add: ids_below_def scenario_world_def)
  have vals: "idCounter ?W = 0" "projectiles ?W = []"
    "tx ?T + cos (headingDeg ?T * (pi / 180))
       * (TANK_RADIUS (constants ?W) + PROJECTILE_RADIUS (constants ?W) + 1) = 123"
    "ty ?T + sin (headingDeg ?T * (pi / 180))
       * (TANK_RADIUS (constants ?W) + PROJECTILE_RADIUS (constants ?W) + 1) = 100"
    "cos (headingDeg ?T * (pi / 180)) * PROJECTILE_SPEED (constants ?W) = 420"
    "sin (headingDeg ?T * (pi / 180)) * PROJECTILE_SPEED (constants ?W) = 0"
    by (simp_all add: scenario_world_def scenario_tank_def CONSTANTS_def)
  note E = conjunct1 [OF conjunct2 [OF shoot_one_projectile_rule [OF h0]],
      THEN mp, OF free, unfolded vals]
  have 1: "\<exists>w' p. shoot ?W ''p1'' = Inr (True, w')
        \<and> pid p = 0 \<and> owner p = ''p1'' \<and> px p = 123 \<and> py p = 100 \<and> vx p = 420 \<and> vy p = 0
        \<and> projectiles w' = [p]
        \<and> map_of (tanks w') ''p1'' = Some (?T\<lparr>activeProjectileId := Some 0\<rparr>)"
    using E below
    apply (elim exE conjE impE)
     apply assumption
    subgoal for w' p
      apply (rule exI [of _ w'])
      apply (rule exI [of _ p])
      apply simp
      done
    done
  have hL: "map_of (tanks leaving_world) ''p1'' = Some ?TL"
    by (simp add: leaving_world_def scenario_world_def)
  have held: "activeProjectileId ?TL = Some 0" by simp
  from shoot_one_projectile_rule [OF hL] held
  have 2: "shoot leaving_world ''p1'' = Inr (False, leaving_world)" by simp
  have "\<exists>w1 evs. step leaving_world = Inr (w1, evs) \<and> Despawn 0 ''p1'' ''oob'' \<in> set evs"
    by (simp add: step_def applyActiveActions_def applyTank_def moveProjectiles_def
        outOfBounds_def clearProjectileFromOwner_def matchEnd_def Let_def
        leaving_world_def scenario_world_def scenario_tank_def CONSTANTS_def)
  then obtain w1 evs where
    st: "step leaving_world = Inr (w1, evs)" "Despawn 0 ''p1'' ''oob'' \<in> set evs" by blast
  note F = conjunct2 [OF conjunct2 [OF shoot_one_projectile_rule [OF hL]],
      rule_format, of 0 w1 evs]
  from F held st
  have 3: "\<exists>t1 w2. map_of (tanks w1) ''p1'' = Some t1 \<and> activeProjectileId t1 = None
        \<and> shoot w1 ''p1'' = Inr (True, w2)"
    by simp
  from 1 2 3 st show ?thesis by blast
qed

text \<open>
  Claim C10. \<open>shoot\<close> checks neither the hit points nor the busy window: for every world and
  every slot whose tank has a null \<open>activeProjectileId\<close>, it returns true and the world
  then holds a projectile of that owner with the next id. The hypotheses say nothing of
  \<open>hp\<close>, \<open>busyUntil\<close> or \<open>activeAction\<close>; the witness is a dead tank in the middle of a move.
\<close>

theorem shoot_has_no_other_precondition:
  assumes "map_of (tanks w) s = Some t" "activeProjectileId t = None"
  shows "\<exists>w' p. shoot w s = Inr (True, w')
           \<and> p \<in> set (projectiles w') \<and> pid p = idCounter w \<and> owner p = s
           \<and> map_of (tanks w') s = Some (t\<lparr>activeProjectileId := Some (idCounter w)\<rparr>)"
proof -
  from shoot_accepted [OF assms] obtain w' p where
    "shoot w s = Inr (True, w')" "p \<in> set (projectiles w')" "pid p = idCounter w" "owner p = s"
    "map_of (tanks w') s = Some (t\<lparr>activeProjectileId := Some (pid p)\<rparr>)"
    by blast
  then show ?thesis by auto
qed

theorem shoot_has_no_other_precondition_witness:
  "hp ((scenario_tank ''p1'' ''light'' 100 100 0)
        \<lparr>hp := 0, busyUntil := Fin 1, activeAction := Some MoveForward\<rparr>) = 0
   \<and> \<not> isIdle ((scenario_tank ''p1'' ''light'' 100 100 0)
        \<lparr>hp := 0, busyUntil := Fin 1, activeAction := Some MoveForward\<rparr>) 0
   \<and> (\<exists>w' p. shoot (scenario_world [(''p1'', (scenario_tank ''p1'' ''light'' 100 100 0)
                  \<lparr>hp := 0, busyUntil := Fin 1, activeAction := Some MoveForward\<rparr>)]) ''p1''
               = Inr (True, w')
          \<and> p \<in> set (projectiles w') \<and> pid p = 0 \<and> owner p = ''p1'')"
proof -
  let ?T = "(scenario_tank ''p1'' ''light'' 100 100 0)
        \<lparr>hp := 0, busyUntil := Fin 1, activeAction := Some MoveForward\<rparr>"
  let ?W = "scenario_world [(''p1'', ?T)]"
  have h: "map_of (tanks ?W) ''p1'' = Some ?T" by (simp add: scenario_world_def)
  have free: "activeProjectileId ?T = None" by (simp add: scenario_tank_def)
  have c: "idCounter ?W = 0" by (simp add: scenario_world_def)
  from shoot_has_no_other_precondition [OF h free]
  have "\<exists>w' p. shoot ?W ''p1'' = Inr (True, w')
          \<and> p \<in> set (projectiles w') \<and> pid p = 0 \<and> owner p = ''p1''"
    unfolding c by blast
  moreover have "hp ?T = 0" "\<not> isIdle ?T 0" by (simp_all add: isIdle_def scenario_tank_def)
  ultimately show ?thesis by blast
qed






text \<open>
  Claim C8. In every world reached from a world of \<open>createWorld\<close> (with the repository's
  constants) by ticks, action starts and shots in any order, so in particular after every
  call of \<open>step\<close>, every alive tank has \<open>TANK_RADIUS \<le> x \<le> ARENA_WIDTH - TANK_RADIUS\<close> and
  \<open>TANK_RADIUS \<le> y \<le> ARENA_HEIGHT - TANK_RADIUS\<close>.
\<close>

theorem arena_containment_after_every_tick:
  assumes "createWorld seed0 CONSTANTS players = Inr w0" "run cmds w0 = Inr w"
  shows "arena_containment w
     \<and> (\<forall>s tank. (s, tank) \<in> set (tanks w) \<and> hp tank > 0 \<longrightarrow>
           TANK_RADIUS CONSTANTS \<le> tx tank \<and> tx tank \<le> ARENA_WIDTH CONSTANTS - TANK_RADIUS CONSTANTS
           \<and> TANK_RADIUS CONSTANTS \<le> ty tank
           \<and> ty tank \<le> ARENA_HEIGHT CONSTANTS - TANK_RADIUS CONSTANTS)"
proof -
  note c = createWorld_result(2) [OF assms(1)]
  from createWorld_all_in_arena [OF assms(1) arena_fits_CONSTANTS] have 0: "all_in_arena w0" .
  from arena_fits_room [OF arena_fits_CONSTANTS] c
  have room: "TANK_RADIUS (constants w0) \<le> ARENA_WIDTH (constants w0) - TANK_RADIUS (constants w0)"
    "TANK_RADIUS (constants w0) \<le> ARENA_HEIGHT (constants w0) - TANK_RADIUS (constants w0)"
    by simp_all
  from run_all_in_arena [OF assms(2) 0 room] c
  have "all_in_arena w" "constants w = CONSTANTS" by simp_all
  then show ?thesis
    by (auto simp: all_in_arena_def arena_containment_def list_all_iff in_arena_def)
qed

theorem arena_containment_after_every_tick_witness:
  "\<exists>w0 w. createWorld 1 CONSTANTS [] = Inr w0
      \<and> run [Start OpMoveForward ''p1'', Shoot ''p2'', Tick] w0 = Inr w
      \<and> arena_containment w"
proof -
  have "\<exists>w0 w. createWorld 1 CONSTANTS [] = Inr w0
      \<and> run [Start OpMoveForward ''p1'', Shoot ''p2'', Tick] w0 = Inr w"
    by (simp add: createWorld_def createPRNG_def random_def imul_def Let_def createTank_def
        CONSTANTS_def moveForward_def isIdle_def beginAction_def setTank_def
        shoot_def nextProjId_def
        step_def applyActiveActions_def applyTank_def applyEffect_def EPSILON_def
        split: prod.splits sum.splits)
  then obtain w0 w where
    c: "createWorld 1 CONSTANTS [] = Inr w0"
    and r: "run [Start OpMoveForward ''p1'', Shoot ''p2'', Tick] w0 = Inr w" by blast
  from arena_containment_after_every_tick [OF c r] c r show ?thesis by blast
qed

text \<open>
  Claim C2 fails at a duration of zero ticks. An idle light tank accepts \<open>turnLeft(0)\<close> at
  time \<open>t\<^sub>n\<close>: \<open>busyUntil = t\<^sub>n + 0 * dt\<close>, so \<open>D = k * dt\<close> with \<open>k = 0\<close>, and the claim puts the
  completion in tick \<open>n + 0\<close>. The action is still active after the call and completes
  during the next tick, \<open>n + 1\<close>.
\<close>

theorem zero_duration_completes_a_tick_later:
  "(case turnLeft (scenario_world [(''p1'', scenario_tank ''p1'' ''light'' 100 100 0),
                                   (''p2'', scenario_tank ''p2'' ''light'' 900 600 180)])
           ''p1'' (Some (Fin 0)) of
      Inr (accepted, w1) \<Rightarrow>
        accepted
        \<and> map_option busyUntil (map_of (tanks w1) ''p1'')
            = Some (Fin (world_t w1 + real 0 * (1 / TICK_RATE (constants w1))))
        \<and> map_option activeAction (map_of (tanks w1) ''p1'') = Some (Some TurnLeft)
        \<and> completion_tick (Suc (Suc 0)) w1 ''p1'' = Some 1
    | Inl e \<Rightarrow> False)"
  by (simp add: turnLeft_def isIdle_def beginAction_def setTank_def
      step_def applyActiveActions_def applyTank_def applyEffect_def EPSILON_def
      moveProjectiles_def matchEnd_def Let_def completes_in_def
      scenario_world_def scenario_tank_def CONSTANTS_def)

text \<open>
  Claim C2, amended. For an action accepted at time \<open>t\<^sub>n\<close> with duration \<open>D\<close>
  (\<open>busyUntil = t\<^sub>n + D\<close>) there is a first later tick \<open>m\<close> with \<open>(m - n) * dt \<ge> D - \<epsilon>\<close>,
  \<open>\<epsilon> = 10\<^sup>-\<^sup>9\<close>, and a tank that stays alive until then completes the action during exactly
  that tick: no completion event for the slot before it, the completion event in it,
  \<open>activeAction\<close> null after it. When \<open>D = k * dt\<close> with \<open>k \<ge> 1\<close> and \<open>dt > \<epsilon>\<close>, that tick is
  \<open>m = n + k\<close>. Ticks are counted from the acceptance: \<open>m\<close> below is \<open>m - n\<close>. Every tank's
  type has a row in \<open>TANK_TYPES\<close>, so that every tick returns.
\<close>

theorem action_completes_on_first_later_tick:
  assumes "distinct (map fst (tanks w))" "types_ok w" "map_of (tanks w) s = Some t"
    "activeAction t = Some a" "busyUntil t = Fin (world_t w + D)" "0 < TICK_RATE (constants w)"
  shows "\<exists>m. first_later_tick (1 / TICK_RATE (constants w)) D m
     \<and> (\<forall>k. 1 \<le> k \<and> D = real k * (1 / TICK_RATE (constants w))
             \<and> EPSILON < 1 / TICK_RATE (constants w) \<longrightarrow> m = k)
     \<and> (alive_for m w s \<longrightarrow>
           (\<forall>fuel. m \<le> fuel \<longrightarrow> completion_tick fuel w s = Some m)
           \<and> (\<exists>w' evss t'. run_ticks m w = Inr (w', evss) \<and> length evss = m
                 \<and> (\<forall>j < m - 1. \<not> completes_in s (evss ! j))
                 \<and> (\<exists>r. ActionComplete s (action_type a) r \<in> set (evss ! (m - 1)))
                 \<and> map_of (tanks w') s = Some t' \<and> activeAction t' = None
                 \<and> busyUntil t' = busyUntil t
                 \<and> world_t w' = world_t w + real m * (1 / TICK_RATE (constants w))))"
proof -
  let ?dt = "1 / TICK_RATE (constants w)"
  from assms(6) have "0 < ?dt" by simp
  from first_later_tick_exists [OF this] obtain m where m: "first_later_tick ?dt D m" by blast
  have u: "\<forall>k. 1 \<le> k \<and> D = real k * ?dt \<and> EPSILON < ?dt \<longrightarrow> m = k"
  proof (intro allI impI)
    fix k
    assume k: "1 \<le> k \<and> D = real k * ?dt \<and> EPSILON < ?dt"
    then have "first_later_tick ?dt D k"
      using first_later_tick_exact [of k ?dt] by simp
    with m show "m = k" by (rule first_later_tick_unique)
  qed
  have c: "(\<forall>fuel. m \<le> fuel \<longrightarrow> completion_tick fuel w s = Some m)
           \<and> (\<exists>w' evss t'. run_ticks m w = Inr (w', evss) \<and> length evss = m
                 \<and> (\<forall>j < m - 1. \<not> completes_in s (evss ! j))
                 \<and> (\<exists>r. ActionComplete s (action_type a) r \<in> set (evss ! (m - 1)))
                 \<and> map_of (tanks w') s = Some t' \<and> activeAction t' = None
                 \<and> busyUntil t' = busyUntil t
                 \<and> world_t w' = world_t w + real m * ?dt)"
    if al: "alive_for m w s"
  proof -
    from busy_window [OF assms(1,3,4,5) al m order_refl assms(2)] obtain w' evss t' where
      b: "completion_tick m w s = Some m" "run_ticks m w = Inr (w', evss)" "length evss = m"
        "\<exists>r. ActionComplete s (action_type a) r \<in> set (last evss)"
        "map_of (tanks w') s = Some t'" "activeAction t' = None" "busyUntil t' = busyUntil t"
        "world_t w' = world_t w + real m * ?dt"
      by blast
    have f: "\<forall>fuel. m \<le> fuel \<longrightarrow> completion_tick fuel w s = Some m"
      using busy_window [OF assms(1,3,4,5) al m _ assms(2)] by blast
    from completion_tick_run [OF b(1,2)] have
      d: "1 \<le> m" "\<forall>j < m - 1. \<not> completes_in s (evss ! j)" by simp_all
    from b(3) d(1) have "last evss = evss ! (m - 1)"
      by (cases evss) (auto simp: last_conv_nth)
    with b(4) have l: "\<exists>r. ActionComplete s (action_type a) r \<in> set (evss ! (m - 1))" by simp
    from b(2,3,5-8) d(2) l f show ?thesis by blast
  qed
  from m u c show ?thesis by blast
qed

theorem action_completes_on_first_later_tick_witness:
  "completion_tick 5 turning_world ''p1'' = Some 2
   \<and> (\<exists>w' evss t'. run_ticks 2 turning_world = Inr (w', evss)
         \<and> \<not> completes_in ''p1'' (evss ! 0)
         \<and> (\<exists>r. ActionComplete ''p1'' ''turnLeft'' r \<in> set (evss ! 1))
         \<and> map_of (tanks w') ''p1'' = Some t' \<and> activeAction t' = None)"
proof -
  let ?T = "(scenario_tank ''p1'' ''light'' 100 100 0)
                   \<lparr>busyUntil := Fin (1 / 30), activeAction := Some TurnLeft\<rparr>"
  have h1: "distinct (map fst (tanks turning_world))"
    by (simp add: turning_world_def scenario_world_def)
  have h2: "types_ok turning_world"
    by (simp add: types_ok_def turning_world_def scenario_world_def scenario_tank_def
        CONSTANTS_def)
  have h3: "map_of (tanks turning_world) ''p1'' = Some ?T"
    by (simp add: turning_world_def scenario_world_def)
  have h4: "activeAction ?T = Some TurnLeft" by simp
  have h5: "busyUntil ?T = Fin (world_t turning_world + 1 / 30)"
    by (simp add: turning_world_def scenario_world_def)
  have h6: "0 < TICK_RATE (constants turning_world)"
    by (simp add: turning_world_def scenario_world_def CONSTANTS_def)
  have dt: "1 / TICK_RATE (constants turning_world) = 1 / 60"
    by (simp add: turning_world_def scenario_world_def CONSTANTS_def)
  from action_completes_on_first_later_tick [OF h1 h2 h3 h4 h5 h6] obtain m where
    m: "\<forall>k. 1 \<le> k \<and> 1 / 30 = real k * (1 / TICK_RATE (constants turning_world))
             \<and> EPSILON < 1 / TICK_RATE (constants turning_world) \<longrightarrow> m = k"
      "alive_for m turning_world ''p1'' \<longrightarrow>
           (\<forall>fuel. m \<le> fuel \<longrightarrow> completion_tick fuel turning_world ''p1'' = Some m)
           \<and> (\<exists>w' evss t'. run_ticks m turning_world = Inr (w', evss) \<and> length evss = m
                 \<and> (\<forall>j < m - 1. \<not> completes_in ''p1'' (evss ! j))
                 \<and> (\<exists>r. ActionComplete ''p1'' (action_type TurnLeft) r \<in> set (evss ! (m - 1)))
                 \<and> map_of (tanks w') ''p1'' = Some t' \<and> activeAction t' = None
                 \<and> busyUntil t' = busyUntil ?T
                 \<and> world_t w' = world_t turning_world
                      + real m * (1 / TICK_RATE (constants turning_world)))"
    by blast
  from m(1) [rule_format, of "Suc (Suc 0)"] have two: "m = Suc (Suc 0)"
    unfolding dt by (simp add: EPSILON_def)
  from m(2) turning_world_alive show ?thesis
    unfolding two by (auto simp: numeral_2_eq_2)
qed

text \<open>
  Claim C9. An idle tank accepts a turn of \<open>d\<close> degrees (in either direction of \<open>d\<close>: the
  call with \<open>- d\<close> gives the same world). While it stays alive, the turn completes in the
  first later tick \<open>m\<close> with \<open>m * dt \<ge> |d| / turnRate - \<epsilon>\<close>, and the heading then is the
  starting heading turned by \<open>m\<close> times \<open>turnRate * dt\<close>, to the left for \<open>turnLeft\<close> and to the
  right for \<open>turnRight\<close>: the full rotation on each of the \<open>m\<close> ticks, the completion tick
  included. This total is the least multiple of \<open>turnRate * dt\<close>, at least one, that reaches
  \<open>|d| - \<epsilon> * turnRate\<close>; for \<open>d = 0\<close> it is one tick's rotation.
\<close>

theorem turn_rotates_on_every_tick_of_window:
  assumes "distinct (map fst (tanks w))" "types_ok w" "map_of (tanks w) s = Some t"
    "js_ge (Fin (world_t w)) (js_sub (busyUntil t) (Fin (1 / 1000000000)))"
    "TANK_TYPES (constants w) (tankType t) = Some stats" "0 < turnRate stats"
    "0 < TICK_RATE (constants w)"
    "op = OpTurnLeft (Some (Fin d)) \<or> op = OpTurnRight (Some (Fin d))"
  shows "\<exists>w1 m. start_action op w s = Inr (True, w1)
      \<and> (op = OpTurnLeft (Some (Fin d)) \<longrightarrow>
           start_action (OpTurnLeft (Some (Fin (- d)))) w s = Inr (True, w1))
      \<and> (op = OpTurnRight (Some (Fin d)) \<longrightarrow>
           start_action (OpTurnRight (Some (Fin (- d)))) w s = Inr (True, w1))
      \<and> first_later_tick (1 / TICK_RATE (constants w)) (\<bar>d\<bar> / turnRate stats) m
      \<and> \<bar>d\<bar> - EPSILON * turnRate stats
           \<le> real m * (turnRate stats * (1 / TICK_RATE (constants w)))
      \<and> (1 < m \<longrightarrow> real (m - 1) * (turnRate stats * (1 / TICK_RATE (constants w)))
                      < \<bar>d\<bar> - EPSILON * turnRate stats)
      \<and> (d = 0 \<longrightarrow> m = 1)
      \<and> (alive_for m w1 s \<longrightarrow>
           (\<forall>fuel. m \<le> fuel \<longrightarrow> completion_tick fuel w1 s = Some m)
           \<and> (\<exists>w' evss t'. run_ticks m w1 = Inr (w', evss)
                 \<and> map_of (tanks w') s = Some t' \<and> activeAction t' = None
                 \<and> headingDeg t' =
                     normalizeDeg (headingDeg t + turn_sign (claimed_action op)
                        * (real m * (turnRate stats * (1 / TICK_RATE (constants w)))))))"
proof -
  let ?dt = "1 / TICK_RATE (constants w)" and ?rate = "turnRate stats"
  let ?D = "\<bar>d\<bar> / ?rate"
  let ?a = "claimed_action op"
  let ?t1 = "t\<lparr>busyUntil := Fin (world_t w + ?D), activeAction := Some ?a\<rparr>"
  let ?w1 = "setTank s ?t1 w"
  from assms(8,6) have dur: "claimed_duration (constants w) stats op = Fin ?D"
    by (auto simp: claimed_duration_def)
  from assms(8) have turn: "?a = TurnLeft \<or> ?a = TurnRight" by auto
  have st: "start_action op w s = Inr (True, ?w1)"
    using start_action_result [OF assms(3,5), of op] assms(4) dur by simp
  have neg: "op = OpTurnLeft (Some (Fin d)) \<longrightarrow>
               start_action (OpTurnLeft (Some (Fin (- d)))) w s = Inr (True, ?w1)"
    "op = OpTurnRight (Some (Fin d)) \<longrightarrow>
       start_action (OpTurnRight (Some (Fin (- d)))) w s = Inr (True, ?w1)"
    using st turn_negated [of w s "Fin d"] by auto
  have w1: "distinct (map fst (tanks ?w1))" "map_of (tanks ?w1) s = Some ?t1"
    "constants ?w1 = constants w" "world_t ?w1 = world_t w"
    using assms(1) setTank_keys [OF assms(3)] by (simp_all add: map_of_setTank) (simp_all add: setTank_def)
  have ok1: "types_ok ?w1"
    using assms(2,5) unfolding types_ok_def list_all_iff setTank_def
    by (auto dest!: update_entries)
  from assms(7) have "0 < ?dt" by simp
  from first_later_tick_exists [OF this] obtain m where flt: "first_later_tick ?dt ?D m" by blast
  from flt have ge: "real m * ?dt \<ge> ?D - EPSILON"
    and lt: "\<And>j. 1 \<le> j \<Longrightarrow> j < m \<Longrightarrow> real j * ?dt < ?D - EPSILON"
    by (auto simp: first_later_tick_def)
  from ge have "(?D - EPSILON) * ?rate \<le> (real m * ?dt) * ?rate"
    using assms(6) by (intro mult_right_mono) simp_all
  then have r1: "\<bar>d\<bar> - EPSILON * ?rate \<le> real m * (?rate * ?dt)"
    using assms(6) by (simp add: algebra_simps)
  have r2: "1 < m \<longrightarrow> real (m - 1) * (?rate * ?dt) < \<bar>d\<bar> - EPSILON * ?rate"
  proof
    assume "1 < m"
    with lt [of "m - 1"] have "real (m - 1) * ?dt < ?D - EPSILON" by simp
    then have "(real (m - 1) * ?dt) * ?rate < (?D - EPSILON) * ?rate"
      using assms(6) by (intro mult_strict_right_mono) simp_all
    then show "real (m - 1) * (?rate * ?dt) < \<bar>d\<bar> - EPSILON * ?rate"
      using assms(6) by (simp add: algebra_simps)
  qed
  have r3: "d = 0 \<longrightarrow> m = 1"
  proof
    assume "d = 0"
    from assms(7) have "first_later_tick ?dt 0 (Suc 0)" by (intro first_later_tick_zero) simp
    with flt \<open>d = 0\<close> show "m = 1" by (auto dest: first_later_tick_unique)
  qed
  have window: "alive_for m ?w1 s \<longrightarrow>
           (\<forall>fuel. m \<le> fuel \<longrightarrow> completion_tick fuel ?w1 s = Some m)
           \<and> (\<exists>w' evss t'. run_ticks m ?w1 = Inr (w', evss)
                 \<and> map_of (tanks w') s = Some t' \<and> activeAction t' = None
                 \<and> headingDeg t' =
                     normalizeDeg (headingDeg t + turn_sign ?a * (real m * (?rate * ?dt))))"
  proof
    assume al: "alive_for m ?w1 s"
    have flt1: "first_later_tick (1 / TICK_RATE (constants ?w1)) ?D m" using flt w1(3) by simp
    have bu: "busyUntil ?t1 = Fin (world_t ?w1 + ?D)" using w1(4) by simp
    have act: "activeAction ?t1 = Some ?a" by simp
    from busy_window [OF w1(1,2) act bu al flt1 order_refl ok1] obtain w' evss t' where
      b: "run_ticks m ?w1 = Inr (w', evss)"
        "map_of (tanks w') s = Some t'" "activeAction t' = None"
        "\<forall>stats. TANK_TYPES (constants ?w1) (tankType ?t1) = Some stats
                  \<and> (?a = TurnLeft \<or> ?a = TurnRight) \<longrightarrow>
                headingDeg t' = normalizeDeg (headingDeg ?t1
                   + turn_sign ?a * (real m * (turnRate stats * (1 / TICK_RATE (constants ?w1)))))"
      by blast
    have f: "\<forall>fuel. m \<le> fuel \<longrightarrow> completion_tick fuel ?w1 s = Some m"
      using busy_window [OF w1(1,2) act bu al flt1 _ ok1] by blast
    from b(4) [rule_format, of stats] assms(5) turn w1(3)
    have hd: "headingDeg t' = normalizeDeg (headingDeg t + turn_sign ?a * (real m * (?rate * ?dt)))"
      by simp
    from b(1-3) hd f
    show "(\<forall>fuel. m \<le> fuel \<longrightarrow> completion_tick fuel ?w1 s = Some m)
           \<and> (\<exists>w' evss t'. run_ticks m ?w1 = Inr (w', evss)
                 \<and> map_of (tanks w') s = Some t' \<and> activeAction t' = None
                 \<and> headingDeg t' =
                     normalizeDeg (headingDeg t + turn_sign ?a * (real m * (?rate * ?dt))))"
      by blast
  qed
  show ?thesis
    by (rule exI [of _ ?w1], rule exI [of _ m]) (use st neg flt r1 r2 r3 window in blast)
qed

theorem turn_rotates_on_every_tick_of_window_witness:
  "(\<exists>w1 w' evss t'.
      start_action (OpTurnRight (Some (Fin 3)))
        (scenario_world [(''p1'', scenario_tank ''p1'' ''light'' 100 100 0),
                         (''p2'', scenario_tank ''p2'' ''light'' 900 600 180)]) ''p1''
        = Inr (True, w1)
      \<and> completion_tick 5 w1 ''p1'' = Some 2
      \<and> run_ticks 2 w1 = Inr (w', evss)
      \<and> map_of (tanks w') ''p1'' = Some t' \<and> activeAction t' = None \<and> headingDeg t' = 4)
   \<and> (\<exists>w1 w' evss t'.
      start_action (OpTurnLeft (Some (Fin 0)))
        (scenario_world [(''p1'', scenario_tank ''p1'' ''light'' 100 100 0),
                         (''p2'', scenario_tank ''p2'' ''light'' 900 600 180)]) ''p1''
        = Inr (True, w1)
      \<and> completion_tick 5 w1 ''p1'' = Some 1
      \<and> run_ticks 1 w1 = Inr (w', evss)
      \<and> map_of (tanks w') ''p1'' = Some t' \<and> activeAction t' = None \<and> headingDeg t' = 358)"
proof -
  let ?T = "scenario_tank ''p1'' ''light'' 100 100 0"
  let ?T2 = "scenario_tank ''p2'' ''light'' 900 600 180"
  let ?W = "scenario_world [(''p1'', ?T), (''p2'', ?T2)]"
  let ?st = "\<lparr>stats_hp = 60, moveSpeed = 160, turnRate = 120\<rparr>"
  have h1: "distinct (map fst (tanks ?W))" by (simp add: scenario_world_def)
  have h2: "types_ok ?W"
    by (simp add: types_ok_def scenario_world_def scenario_tank_def CONSTANTS_def)
  have h3: "map_of (tanks ?W) ''p1'' = Some ?T" by (simp add: scenario_world_def)
  have h4: "js_ge (Fin (world_t ?W)) (js_sub (busyUntil ?T) (Fin (1 / 1000000000)))"
    by (simp add: scenario_world_def scenario_tank_def)
  have h5: "TANK_TYPES (constants ?W) (tankType ?T) = Some ?st"
    by (simp add: scenario_world_def scenario_tank_def CONSTANTS_def)
  have h6: "0 < turnRate ?st" by simp
  have h7: "0 < TICK_RATE (constants ?W)" by (simp add: scenario_world_def CONSTANTS_def)
  have dt: "1 / TICK_RATE (constants ?W) = 1 / 60" by (simp add: scenario_world_def CONSTANTS_def)
  have hd: "headingDeg ?T = 0" by (simp add: scenario_tank_def)
  have n: "normalizeDeg 4 = 4" "normalizeDeg (- 2) = 358" by (simp_all add: normalizeDeg_floor)
  let ?X = "scenario_world [(''p1'', ?T\<lparr>busyUntil := Fin (1 / 40), activeAction := Some TurnRight\<rparr>),
                            (''p2'', ?T2)]"
  have ex: "start_action (OpTurnRight (Some (Fin 3))) ?W ''p1'' = Inr (True, ?X)"
    by (simp add: turnRight_def isIdle_def beginAction_def setTank_def
        scenario_world_def scenario_tank_def CONSTANTS_def)
  have ax: "alive_for (Suc (Suc 0)) ?X ''p1''"
    by (simp add: step_def applyActiveActions_def applyTank_def applyEffect_def
        EPSILON_def moveProjectiles_def matchEnd_def Let_def
        scenario_world_def scenario_tank_def CONSTANTS_def)
  have fx: "first_later_tick (1 / 60) (\<bar>3\<bar> / turnRate ?st) (Suc (Suc 0))"
  proof -
    have "real j * (1 / 60) < 3 / 120 - EPSILON" if "1 \<le> j" "j < Suc (Suc 0)" for j
    proof -
      from that have "j = 1" by linarith
      then show ?thesis by (simp add: EPSILON_def)
    qed
    then show ?thesis by (simp add: first_later_tick_def EPSILON_def)
  qed
  from turn_rotates_on_every_tick_of_window
    [OF h1 h2 h3 h4 h5 h6 h7, of "OpTurnRight (Some (Fin 3))" 3]
  obtain w1 m where
    a: "start_action (OpTurnRight (Some (Fin 3))) ?W ''p1'' = Inr (True, w1)"
    and am: "first_later_tick (1 / TICK_RATE (constants ?W)) (\<bar>3\<bar> / turnRate ?st) m"
    and b: "alive_for m w1 ''p1'' \<longrightarrow>
           (\<forall>fuel. m \<le> fuel \<longrightarrow> completion_tick fuel w1 ''p1'' = Some m)
           \<and> (\<exists>w' evss t'. run_ticks m w1 = Inr (w', evss)
                 \<and> map_of (tanks w') ''p1'' = Some t' \<and> activeAction t' = None
                 \<and> headingDeg t' =
                     normalizeDeg (headingDeg ?T + turn_sign (claimed_action (OpTurnRight (Some (Fin 3))))
                        * (real m * (turnRate ?st * (1 / TICK_RATE (constants ?W))))))"
    by blast
  from a ex have w1: "w1 = ?X" by simp
  from am fx have m2: "m = Suc (Suc 0)" unfolding dt by (rule first_later_tick_unique)
  from b ax
  have 1: "\<exists>w1 w' evss t'. start_action (OpTurnRight (Some (Fin 3))) ?W ''p1'' = Inr (True, w1)
      \<and> completion_tick 5 w1 ''p1'' = Some 2 \<and> run_ticks 2 w1 = Inr (w', evss)
      \<and> map_of (tanks w') ''p1'' = Some t' \<and> activeAction t' = None \<and> headingDeg t' = 4"
    unfolding w1 m2 dt hd using ex by (auto simp: numeral_2_eq_2 n)
  let ?Y = "scenario_world [(''p1'', ?T\<lparr>busyUntil := Fin 0, activeAction := Some TurnLeft\<rparr>),
                            (''p2'', ?T2)]"
  have ey: "start_action (OpTurnLeft (Some (Fin 0))) ?W ''p1'' = Inr (True, ?Y)"
    by (simp add: turnLeft_def isIdle_def beginAction_def setTank_def
        scenario_world_def scenario_tank_def CONSTANTS_def)
  have ay: "alive_for (Suc 0) ?Y ''p1''"
    by (simp add: step_def applyActiveActions_def applyTank_def applyEffect_def
        EPSILON_def moveProjectiles_def matchEnd_def Let_def
        scenario_world_def scenario_tank_def CONSTANTS_def)
  from turn_rotates_on_every_tick_of_window
    [OF h1 h2 h3 h4 h5 h6 h7, of "OpTurnLeft (Some (Fin 0))" 0]
  obtain v1 k where
    c: "start_action (OpTurnLeft (Some (Fin 0))) ?W ''p1'' = Inr (True, v1)"
    and ck: "(0::real) = 0 \<longrightarrow> k = 1"
    and d: "alive_for k v1 ''p1'' \<longrightarrow>
           (\<forall>fuel. k \<le> fuel \<longrightarrow> completion_tick fuel v1 ''p1'' = Some k)
           \<and> (\<exists>w' evss t'. run_ticks k v1 = Inr (w', evss)
                 \<and> map_of (tanks w') ''p1'' = Some t' \<and> activeAction t' = None
                 \<and> headingDeg t' =
                     normalizeDeg (headingDeg ?T + turn_sign (claimed_action (OpTurnLeft (Some (Fin 0))))
                        * (real k * (turnRate ?st * (1 / TICK_RATE (constants ?W))))))"
    by blast
  from c ey have v1: "v1 = ?Y" by simp
  from ck have k1: "k = Suc 0" by simp
  from d ay
  have 2: "\<exists>w1 w' evss t'. start_action (OpTurnLeft (Some (Fin 0))) ?W ''p1'' = Inr (True, w1)
      \<and> completion_tick 5 w1 ''p1'' = Some 1 \<and> run_ticks 1 w1 = Inr (w', evss)
      \<and> map_of (tanks w') ''p1'' = Some t' \<and> activeAction t' = None \<and> headingDeg t' = 358"
    unfolding v1 k1 dt hd using ey by (auto simp: n)
  from 1 2 show ?thesis by blast
qed

end
